theory Spec2Isabelle
  imports Main "HOL-Library.Sublist"
begin

section \<open>The state document\<close>

text \<open>
  The plugin \<^verbatim>\<open>src/ansible-terraform.py\<close> reads a Terraform state file and replays
  the resources of the Ansible provider into an Ansible inventory. The document is the
  JSON shape the code indexes: a list of resources, each with an optional
  \<^verbatim>\<open>provider\<close> (read with \<^verbatim>\<open>resource.get("provider", "")\<close>), a \<^verbatim>\<open>type\<close> and a list of
  instances; an instance carries the \<^verbatim>\<open>attributes\<close> mapping with \<^verbatim>\<open>name\<close>,
  \<^verbatim>\<open>children\<close>, \<^verbatim>\<open>groups\<close> and \<^verbatim>\<open>variables\<close>. A JSON \<^verbatim>\<open>null\<close> is \<open>None\<close>.
  The key lookups that raise \<^verbatim>\<open>KeyError\<close> on a document of another shape are outside
  this type.
\<close>

datatype json =
    JNull
  | JBool bool
  | JInt int
  | JString string
  | JList "json list"
  | JObject "(string \<times> json) list"

record attributes =
  name :: string
  children :: "string list option"
  groups :: "string list option"
  variables :: "(string \<times> json) list option"

record resource =
  provider :: "string option"
  rtype :: string
  instances :: "attributes list"

definition ansible_provider :: string where
  "ansible_provider = ''provider[\"registry.terraform.io/ansible/ansible\"]''"

section \<open>The inventory sink\<close>

text \<open>
  Modelled from the spec: the inventory sink (\<^verbatim>\<open>ansible.inventory.data.InventoryData\<close>),
  which the plugin only calls. Following sections 3 and 4.2 of the specification it is a
  graph that starts empty: host names, group names, group-to-child edges and variable
  bindings attached to an owner name. Adding a host or a group that exists changes
  nothing; \<^verbatim>\<open>get_groups_dict()\<close> is read by the plugin only for its keys, the group
  names.
\<close>

record inventory =
  hosts :: "string set"
  group_names :: "string set"
  child_edges :: "(string \<times> string) set"
  var_bindings :: "string \<times> string \<Rightarrow> json option"

definition empty_inventory :: inventory where
  "empty_inventory =
     \<lparr>hosts = {}, group_names = {}, child_edges = {}, var_bindings = (\<lambda>_. None)\<rparr>"

text \<open>
  Modelled from the spec: the operations of the sink that the plugin calls,
  \<^verbatim>\<open>add_host\<close>, \<^verbatim>\<open>add_group\<close>, \<^verbatim>\<open>add_child\<close> and \<^verbatim>\<open>set_variable\<close>. Each takes effect
  at once; \<^verbatim>\<open>add_host\<close> and \<^verbatim>\<open>add_group\<close> return the name they were given.
\<close>

definition add_host :: "string \<Rightarrow> inventory \<Rightarrow> inventory" where
  "add_host h iv = iv\<lparr>hosts := insert h (hosts iv)\<rparr>"

definition add_group :: "string \<Rightarrow> inventory \<Rightarrow> inventory" where
  "add_group g iv = iv\<lparr>group_names := insert g (group_names iv)\<rparr>"

definition add_child :: "string \<Rightarrow> string \<Rightarrow> inventory \<Rightarrow> inventory" where
  "add_child g c iv = iv\<lparr>child_edges := insert (g, c) (child_edges iv)\<rparr>"

definition set_variable :: "string \<Rightarrow> string \<Rightarrow> json \<Rightarrow> inventory \<Rightarrow> inventory" where
  "set_variable owner k v iv = iv\<lparr>var_bindings := (var_bindings iv)((owner, k) \<mapsto> v)\<rparr>"

section \<open>Errors\<close>

text \<open>
  Every error the plugin raises itself is an \<^verbatim>\<open>AnsiblePluginError\<close> with a message. The
  specification calls the one of line 84 a conflict error and those of lines 45 and 50
  locator errors. A failure to read the workspace marker is not caught and leaves as the
  operating system's error.
\<close>

datatype error =
    AnsiblePluginError string
  | OSError string

definition ConflictError :: "string \<Rightarrow> error" where
  "ConflictError host =
     AnsiblePluginError (''Found conflict between group name and host name: '' @ host)"

section \<open>The state locator: \<^verbatim>\<open>InventoryModule.get_tf_state\<close>\<close>

text \<open>
  The code builds its paths with \<^verbatim>\<open>Path.cwd() / a / b\<close> and asks the file system whether
  they exist. A path is kept as the code writes it: the list of segments joined to the
  working directory.

  A path of the file system is absent, a text file, or something that exists and cannot
  be read as text (a directory, bytes that are not UTF-8), with the message of the error
  the read raises.
\<close>

type_synonym path = "string list"

datatype node =
    File string
  | Unreadable string

record filesystem =
  cwd :: string
  nodes :: "path \<Rightarrow> node option"

definition path_exists :: "filesystem \<Rightarrow> path \<Rightarrow> bool" where
  "path_exists fs p = (nodes fs p \<noteq> None)"

definition read_text :: "filesystem \<Rightarrow> path \<Rightarrow> string + string" where
  "read_text fs p =
     (case nodes fs p of
        Some (File t) \<Rightarrow> Inr t
      | Some (Unreadable m) \<Rightarrow> Inl m
      | None \<Rightarrow> Inl ''No such file or directory'')"

text \<open>
  Line 44 prints the path with \<^verbatim>\<open>state_file.absolute().as_posix()\<close>. What
  \<^verbatim>\<open>pathlib\<close> prints is not the segments as they were written: a pure POSIX path is a
  root (empty, one slash, or two slashes when the text starts with exactly two) and a list
  of parts. Joining a segment to a path splits the segment at the slashes and drops the
  empty pieces and the pieces \<^verbatim>\<open>.\<close>; an empty segment changes nothing; a segment that
  starts with a slash replaces the path. \<^verbatim>\<open>Path.cwd()\<close> is the path of the text
  \<^verbatim>\<open>os.getcwd()\<close> returns.
\<close>

record pure_path =
  root :: string
  parts :: "string list"

text \<open>\<^verbatim>\<open>str.split("/")\<close> and \<^verbatim>\<open>"/".join\<close>.\<close>

fun split_sep :: "string \<Rightarrow> string list" where
  "split_sep [] = [[]]"
| "split_sep (c # cs) =
     (if c = CHR ''/'' then [] # split_sep cs
      else (case split_sep cs of [] \<Rightarrow> [[c]] | x # xs \<Rightarrow> (c # x) # xs))"

fun join_sep :: "string list \<Rightarrow> string" where
  "join_sep [] = []"
| "join_sep [x] = x"
| "join_sep (x # y # ys) = x @ ''/'' @ join_sep (y # ys)"

definition splitroot :: "string \<Rightarrow> string \<times> string" where
  "splitroot part =
     (if part \<noteq> [] \<and> hd part = CHR ''/'' then
        (let stripped_part = dropWhile (\<lambda>c. c = CHR ''/'') part in
         (if length part - length stripped_part = 2 then ''//'' else ''/'', stripped_part))
      else ([], part))"

definition rel_parts :: "string \<Rightarrow> string list" where
  "rel_parts rel = filter (\<lambda>x. x \<noteq> [] \<and> x \<noteq> ''.'') (split_sep rel)"

definition join_segment :: "pure_path \<Rightarrow> string \<Rightarrow> pure_path" where
  "join_segment p part =
     (if part = [] then p
      else (case splitroot part of
              (r, rel) \<Rightarrow>
                if r \<noteq> [] then \<lparr>root = r, parts = rel_parts rel\<rparr>
                else p\<lparr>parts := parts p @ rel_parts rel\<rparr>))"

definition Path_cwd :: "filesystem \<Rightarrow> pure_path" where
  "Path_cwd fs = join_segment \<lparr>root = [], parts = []\<rparr> (cwd fs)"

definition pure_path_of :: "filesystem \<Rightarrow> path \<Rightarrow> pure_path" where
  "pure_path_of fs p = foldl join_segment (Path_cwd fs) p"

text \<open>\<^verbatim>\<open>absolute()\<close> puts the working directory before a path that has no root.\<close>

definition absolute :: "filesystem \<Rightarrow> pure_path \<Rightarrow> pure_path" where
  "absolute fs p = (if root p \<noteq> [] then p else foldl join_segment (Path_cwd fs) (parts p))"

definition str_path :: "pure_path \<Rightarrow> string" where
  "str_path p = (if root p = [] \<and> parts p = [] then ''.'' else root p @ join_sep (parts p))"

definition as_posix :: "filesystem \<Rightarrow> path \<Rightarrow> string" where
  "as_posix fs p = str_path (absolute fs (pure_path_of fs p))"

text \<open>
  A plain name is a segment that \<^verbatim>\<open>pathlib\<close> keeps as one part: not empty, without a
  slash, and not \<^verbatim>\<open>.\<close>.
\<close>

definition plain_name :: "string \<Rightarrow> bool" where
  "plain_name x = (x \<noteq> [] \<and> CHR ''/'' \<notin> set x \<and> x \<noteq> ''.'')"

definition env_path :: path where
  "env_path = [''.terraform'', ''environment'']"

definition default_state_file :: path where
  "default_state_file = [''terraform.tfstate'']"

definition workspace_state_file :: "string \<Rightarrow> path" where
  "workspace_state_file env_name = [''terraform.tfstate.d'', env_name, ''terraform.tfstate'']"

text \<open>
  Lines 31-39: the choice of the state file, with the workspace name that was read
  (\<open>None\<close> when the marker file is absent).
\<close>

definition select_state_file :: "filesystem \<Rightarrow> error + path \<times> string option" where
  "select_state_file fs =
     (if path_exists fs env_path then
        (case read_text fs env_path of
           Inl m \<Rightarrow> Inl (OSError m)
         | Inr env_name \<Rightarrow>
             if env_name \<noteq> ''default'' then Inr (workspace_state_file env_name, Some env_name)
             else Inr (default_state_file, Some env_name))
      else Inr (default_state_file, None))"

text \<open>Lines 43-45: the message of the error for a state file that is not there.\<close>

definition env_string :: "string option \<Rightarrow> string" where
  "env_string env_name =
     (case env_name of
        None \<Rightarrow> []
      | Some n \<Rightarrow> if n = [] then [] else '' for workspace '' @ n)"

definition not_located :: "string option \<Rightarrow> string \<Rightarrow> error" where
  "not_located env_name p =
     AnsiblePluginError
       (''Could not locate the terraform state file'' @ env_string env_name
          @ ''. Expected at: '' @ p)"

definition load_failed :: "string \<Rightarrow> error" where
  "load_failed m = AnsiblePluginError (''Failed to load the state file due to:'' @ [CHR 0x0A] @ m)"

text \<open>
  Lines 41-50: the check of the chosen file, the read and the parse. \<^verbatim>\<open>json.loads\<close> is
  the parameter \<open>loads\<close>: it returns the document, or the message of the exception.
\<close>

definition load_state_file ::
  "filesystem \<Rightarrow> (string \<Rightarrow> string + 'doc) \<Rightarrow> path \<Rightarrow> string option \<Rightarrow> error + 'doc" where
  "load_state_file fs loads state_file env_name =
     (if \<not> path_exists fs state_file then Inl (not_located env_name (as_posix fs state_file))
      else (case read_text fs state_file of
              Inl m \<Rightarrow> Inl (load_failed m)
            | Inr t \<Rightarrow> (case loads t of Inl m \<Rightarrow> Inl (load_failed m) | Inr doc \<Rightarrow> Inr doc)))"

definition get_tf_state :: "filesystem \<Rightarrow> (string \<Rightarrow> string + 'doc) \<Rightarrow> error + 'doc" where
  "get_tf_state fs loads =
     (case select_state_file fs of
        Inl e \<Rightarrow> Inl e
      | Inr (state_file, env_name) \<Rightarrow> load_state_file fs loads state_file env_name)"

section \<open>The resolver: \<^verbatim>\<open>InventoryModule.parse\<close>\<close>

text \<open>
  A run either finishes with a value or raises; the inventory is mutated in place, so a
  raise leaves the inventory as it was at that moment.
\<close>

datatype 'a outcome =
    Done 'a
  | Raised error inventory

text \<open>
  \<^verbatim>\<open>delayed = defaultdict(list)\<close>: keys in order of first insertion, each with the list
  of children appended so far. \<^verbatim>\<open>delayed[group].append(child)\<close>:
\<close>

type_synonym delayed = "(string \<times> string list) list"

fun delayed_append :: "string \<Rightarrow> string \<Rightarrow> delayed \<Rightarrow> delayed" where
  "delayed_append g c [] = [(g, [c])]"
| "delayed_append g c ((k, cs) # d) =
     (if k = g then (k, cs @ [c]) # d else (k, cs) # delayed_append g c d)"

text \<open>Lines 74-75: the loop over a group's children.\<close>

fun delay_children :: "string \<Rightarrow> string list \<Rightarrow> delayed \<Rightarrow> delayed" where
  "delay_children g [] d = d"
| "delay_children g (c # cs) d = delay_children g cs (delayed_append g c d)"

text \<open>Lines 80-86: the loop over a host's groups, with the conflict check.\<close>

fun join_groups :: "string \<Rightarrow> string list \<Rightarrow> inventory \<Rightarrow> inventory outcome" where
  "join_groups host [] iv = Done iv"
| "join_groups host (g # gs) iv =
     (let iv1 = add_group g iv in
      if host \<in> group_names iv1 then Raised (ConflictError host) iv1
      else join_groups host gs (add_child g host iv1))"

text \<open>Lines 92-93: the loop over the variables.\<close>

fun set_variables :: "string \<Rightarrow> (string \<times> json) list \<Rightarrow> inventory \<Rightarrow> inventory" where
  "set_variables owner [] iv = iv"
| "set_variables owner ((k, v) # kvs) iv = set_variables owner kvs (set_variable owner k v iv)"

definition apply_variables :: "attributes \<Rightarrow> inventory \<Rightarrow> inventory" where
  "apply_variables data iv =
     (case variables data of None \<Rightarrow> iv | Some kvs \<Rightarrow> set_variables (name data) kvs iv)"

text \<open>Lines 65-93: the body of the loop over the instances of one resource.\<close>

definition process_instance ::
  "string \<Rightarrow> attributes \<Rightarrow> inventory \<times> delayed \<Rightarrow> (inventory \<times> delayed) outcome" where
  "process_instance ty data st =
     (case st of (iv, d) \<Rightarrow>
      if ty = ''ansible_group'' then
        (let iv1 = add_group (name data) iv;
             d1 = (case children data of None \<Rightarrow> d
                   | Some cs \<Rightarrow> delay_children (name data) cs d)
         in Done (apply_variables data iv1, d1))
      else if ty = ''ansible_host'' then
        (let iv1 = add_host (name data) iv in
         case groups data of
           None \<Rightarrow> Done (apply_variables data iv1, d)
         | Some gs \<Rightarrow>
             (case join_groups (name data) gs iv1 of
                Raised e iv2 \<Rightarrow> Raised e iv2
              | Done iv2 \<Rightarrow> Done (apply_variables data iv2, d)))
      else Done (iv, d))"

fun process_instances ::
  "string \<Rightarrow> attributes list \<Rightarrow> inventory \<times> delayed \<Rightarrow> (inventory \<times> delayed) outcome" where
  "process_instances ty [] st = Done st"
| "process_instances ty (i # is) st =
     (case process_instance ty i st of
        Raised e iv \<Rightarrow> Raised e iv
      | Done st1 \<Rightarrow> process_instances ty is st1)"

text \<open>Lines 60-93: the loop over the resources, skipping the other providers.\<close>

definition matches_provider :: "resource \<Rightarrow> bool" where
  "matches_provider r = ((case provider r of None \<Rightarrow> [] | Some p \<Rightarrow> p) = ansible_provider)"

fun scan_resources ::
  "resource list \<Rightarrow> inventory \<times> delayed \<Rightarrow> (inventory \<times> delayed) outcome" where
  "scan_resources [] st = Done st"
| "scan_resources (r # rs) st =
     (if \<not> matches_provider r then scan_resources rs st
      else (case process_instances (rtype r) (instances r) st of
              Raised e iv \<Rightarrow> Raised e iv
            | Done st1 \<Rightarrow> scan_resources rs st1))"

text \<open>Lines 96-101: the registration of the delayed children.\<close>

fun register_children :: "string \<Rightarrow> string list \<Rightarrow> inventory \<Rightarrow> inventory" where
  "register_children g [] iv = iv"
| "register_children g (c # cs) iv =
     (let iv1 = (if c \<notin> hosts iv \<and> c \<notin> group_names iv then add_group c iv else iv)
      in register_children g cs (add_child g c iv1))"

fun register_delayed :: "delayed \<Rightarrow> inventory \<Rightarrow> inventory" where
  "register_delayed [] iv = iv"
| "register_delayed ((g, cs) # d) iv = register_delayed d (register_children g cs iv)"

text \<open>
  Lines 58-101: the body of \<^verbatim>\<open>parse\<close> from the resource list on: the scan, then the
  delayed registration.
\<close>

definition parse_resources :: "resource list \<Rightarrow> inventory \<Rightarrow> inventory outcome" where
  "parse_resources resources iv =
     (case scan_resources resources (iv, []) of
        Raised e iv1 \<Rightarrow> Raised e iv1
      | Done (iv1, d) \<Rightarrow> Done (register_delayed d iv1))"

text \<open>
  Lines 55-56: \<^verbatim>\<open>parse\<close> itself reads the state first. The parameter \<open>loads\<close> stands for
  \<^verbatim>\<open>json.loads\<close> followed by the lookup of \<^verbatim>\<open>"resources"\<close>. An error of the locator
  leaves the inventory untouched.
\<close>

definition parse ::
  "filesystem \<Rightarrow> (string \<Rightarrow> string + resource list) \<Rightarrow> inventory \<Rightarrow> inventory outcome" where
  "parse fs loads iv =
     (case get_tf_state fs loads of
        Inl e \<Rightarrow> Raised e iv
      | Inr resources \<Rightarrow> parse_resources resources iv)"

text \<open>The inventory a run leaves behind, and the error it raised, if any.\<close>

fun final_inventory :: "inventory outcome \<Rightarrow> inventory" where
  "final_inventory (Done iv) = iv"
| "final_inventory (Raised e iv) = iv"

fun raised :: "'a outcome \<Rightarrow> error option" where
  "raised (Done x) = None"
| "raised (Raised e iv) = Some e"

section \<open>Orders on inventories and delayed children\<close>

text \<open>
  One inventory is contained in another when it has no host, group, child edge or bound
  variable that the other lacks. The pairs of a delayed mapping are its (group, child)
  entries.
\<close>

definition inventory_le :: "inventory \<Rightarrow> inventory \<Rightarrow> bool" where
  "inventory_le a b =
     (hosts a \<subseteq> hosts b \<and> group_names a \<subseteq> group_names b \<and> child_edges a \<subseteq> child_edges b
      \<and> dom (var_bindings a) \<subseteq> dom (var_bindings b))"

definition delayed_pairs :: "delayed \<Rightarrow> (string \<times> string) set" where
  "delayed_pairs d = {(g, c). \<exists>cs. (g, cs) \<in> set d \<and> c \<in> set cs}"

text \<open>
  Two scans have made the same progress when both raised the same error with the same
  inventory, or both finished with the same inventory and the same delayed pairs.
\<close>

definition same_progress ::
  "(inventory \<times> delayed) outcome \<Rightarrow> (inventory \<times> delayed) outcome \<Rightarrow> bool" where
  "same_progress a b =
     (case a of
        Done (s1, d1) \<Rightarrow>
          (case b of Done (s2, d2) \<Rightarrow> s1 = s2 \<and> delayed_pairs d1 = delayed_pairs d2
           | Raised e s \<Rightarrow> False)
      | Raised e s \<Rightarrow> b = Raised e s)"

text \<open>
  A JSON object has no order: two documents are the same when they differ at most in the
  order in which a \<^verbatim>\<open>variables\<close> object lists its keys, each key once. An inventory is
  fresh when it holds nothing.
\<close>

definition same_variables ::
  "(string \<times> json) list option \<Rightarrow> (string \<times> json) list option \<Rightarrow> bool" where
  "same_variables a b =
     (a = b \<or>
      (case a of
         None \<Rightarrow> False
       | Some x \<Rightarrow>
           (case b of
              None \<Rightarrow> False
            | Some y \<Rightarrow> distinct (map fst x) \<and> distinct (map fst y) \<and> set x = set y)))"

definition same_attributes :: "attributes \<Rightarrow> attributes \<Rightarrow> bool" where
  "same_attributes i j =
     (name i = name j \<and> children i = children j \<and> groups i = groups j
      \<and> same_variables (variables i) (variables j))"

definition same_resource :: "resource \<Rightarrow> resource \<Rightarrow> bool" where
  "same_resource r q =
     (provider r = provider q \<and> rtype r = rtype q
      \<and> list_all2 same_attributes (instances r) (instances q))"

definition same_document :: "resource list \<Rightarrow> resource list \<Rightarrow> bool" where
  "same_document rs qs = list_all2 same_resource rs qs"

definition fresh :: "inventory \<Rightarrow> bool" where
  "fresh s = (hosts s = {} \<and> group_names s = {} \<and> child_edges s = {} \<and> var_bindings s = Map.empty)"

section \<open>Example documents and file systems\<close>

text \<open>Resources of the Ansible provider with a single instance.\<close>

definition group_resource :: "string \<Rightarrow> string list option \<Rightarrow> (string \<times> json) list option \<Rightarrow> resource" where
  "group_resource n cs vs =
     \<lparr>provider = Some ansible_provider, rtype = ''ansible_group'',
      instances = [\<lparr>name = n, children = cs, groups = None, variables = vs\<rparr>]\<rparr>"

definition host_resource :: "string \<Rightarrow> string list option \<Rightarrow> (string \<times> json) list option \<Rightarrow> resource" where
  "host_resource n gs vs =
     \<lparr>provider = Some ansible_provider, rtype = ''ansible_host'',
      instances = [\<lparr>name = n, children = None, groups = gs, variables = vs\<rparr>]\<rparr>"

text \<open>Two resources that are not of the Ansible provider, one of them without a provider.\<close>

definition other_document :: "resource list" where
  "other_document =
     [\<lparr>provider = Some ''provider[\"registry.terraform.io/hashicorp/aws\"]'', rtype = ''ansible_host'',
       instances = [\<lparr>name = ''db1'', children = None, groups = Some [''db''], variables = None\<rparr>]\<rparr>,
      \<lparr>provider = None, rtype = ''ansible_group'',
       instances = [\<lparr>name = ''db'', children = Some [''db1''], groups = None, variables = None\<rparr>]\<rparr>]"

text \<open>
  A working directory whose workspace marker reads \<^verbatim>\<open>staging\<close> and that has no state
  file, and one with a state file and no marker.
\<close>

definition staging_fs :: filesystem where
  "staging_fs =
     \<lparr>cwd = ''/srv/infra'',
      nodes = (\<lambda>p. if p = [''.terraform'', ''environment''] then Some (File ''staging'') else None)\<rparr>"

definition plain_fs :: filesystem where
  "plain_fs =
     \<lparr>cwd = ''/srv/infra'',
      nodes = (\<lambda>p. if p = [''terraform.tfstate''] then Some (File ''{\"resources\": []}'') else None)\<rparr>"

text \<open>
  The working directory \<^verbatim>\<open>/\<close> with the marker \<^verbatim>\<open>staging\<close>, and a working directory
  whose marker file is empty; neither has a state file.
\<close>

definition root_staging_fs :: filesystem where
  "root_staging_fs =
     \<lparr>cwd = ''/'',
      nodes = (\<lambda>p. if p = [''.terraform'', ''environment''] then Some (File ''staging'') else None)\<rparr>"

definition empty_marker_fs :: filesystem where
  "empty_marker_fs =
     \<lparr>cwd = ''/srv/infra'',
      nodes = (\<lambda>p. if p = [''.terraform'', ''environment''] then Some (File []) else None)\<rparr>"

text \<open>A \<^verbatim>\<open>json.loads\<close> that rejects every text.\<close>

definition no_loads :: "string \<Rightarrow> string + resource list" where
  "no_loads t = Inl ''Expecting value''"

section \<open>Properties of the inventory operations\<close>

lemma ansible_provider_nonempty: "ansible_provider \<noteq> []"
  by (simp add: ansible_provider_def)

lemma add_host_fields [simp]:
  "hosts (add_host h s) = insert h (hosts s)"
  "group_names (add_host h s) = group_names s"
  "child_edges (add_host h s) = child_edges s"
  "var_bindings (add_host h s) = var_bindings s"
  by (simp_all add: add_host_def)

lemma add_group_fields [simp]:
  "hosts (add_group g s) = hosts s"
  "group_names (add_group g s) = insert g (group_names s)"
  "child_edges (add_group g s) = child_edges s"
  "var_bindings (add_group g s) = var_bindings s"
  by (simp_all add: add_group_def)

lemma add_child_fields [simp]:
  "hosts (add_child g c s) = hosts s"
  "group_names (add_child g c s) = group_names s"
  "child_edges (add_child g c s) = insert (g, c) (child_edges s)"
  "var_bindings (add_child g c s) = var_bindings s"
  by (simp_all add: add_child_def)

lemma set_variable_fields [simp]:
  "hosts (set_variable n k v s) = hosts s"
  "group_names (set_variable n k v s) = group_names s"
  "child_edges (set_variable n k v s) = child_edges s"
  "var_bindings (set_variable n k v s) = (var_bindings s)((n, k) \<mapsto> v)"
  by (simp_all add: set_variable_def)

lemma set_variables_fields [simp]:
  "hosts (set_variables n kvs s) = hosts s"
  "group_names (set_variables n kvs s) = group_names s"
  "child_edges (set_variables n kvs s) = child_edges s"
  by (induction n kvs s rule: set_variables.induct) simp_all

lemma set_variables_dom:
  "dom (var_bindings (set_variables n kvs s)) = dom (var_bindings s) \<union> (\<lambda>kv. (n, fst kv)) ` set kvs"
  by (induction n kvs s rule: set_variables.induct) auto

lemma apply_variables_fields [simp]:
  "hosts (apply_variables i s) = hosts s"
  "group_names (apply_variables i s) = group_names s"
  "child_edges (apply_variables i s) = child_edges s"
  by (simp_all add: apply_variables_def split: option.splits)

lemma apply_variables_dom: "dom (var_bindings s) \<subseteq> dom (var_bindings (apply_variables i s))"
  by (auto simp: apply_variables_def set_variables_dom split: option.splits)

lemma inventory_le_refl [simp]: "inventory_le s s"
  by (simp add: inventory_le_def)

lemma inventory_le_trans: "inventory_le a b \<Longrightarrow> inventory_le b c \<Longrightarrow> inventory_le a c"
  unfolding inventory_le_def by blast

lemma inventory_le_apply_variables: "inventory_le s (apply_variables i s)"
  using apply_variables_dom [of s i] by (simp add: inventory_le_def)

lemma inventory_le_add [simp]:
  "inventory_le s (add_host h s)"
  "inventory_le s (add_group g s)"
  "inventory_le s (add_child g c s)"
  by (auto simp: inventory_le_def)

lemma join_groups_Done:
  "join_groups h gs s = Done s' \<Longrightarrow>
     hosts s' = hosts s \<and> group_names s' = group_names s \<union> set gs
     \<and> child_edges s' = child_edges s \<union> (\<lambda>g. (g, h)) ` set gs
     \<and> var_bindings s' = var_bindings s"
  by (induction h gs s rule: join_groups.induct) (auto simp: Let_def split: if_splits)

lemma join_groups_Done_no_conflict:
  "join_groups h gs s = Done s' \<Longrightarrow> gs \<noteq> [] \<Longrightarrow> h \<notin> group_names s'"
proof (induction h gs s rule: join_groups.induct)
  case (1 host iv)
  then show ?case by simp
next
  case (2 host g gs iv)
  then have nc: "host \<notin> group_names (add_group g iv)"
    by (auto simp: Let_def split: if_splits)
  with 2 have rest: "join_groups host gs (add_child g host (add_group g iv)) = Done s'"
    by (simp add: Let_def)
  show ?case
  proof (cases gs)
    case Nil
    with rest nc show ?thesis by auto
  next
    case (Cons a list)
    with 2 nc rest show ?thesis by (simp add: Let_def)
  qed
qed

lemma join_groups_Raised:
  "join_groups h gs s = Raised e s' \<Longrightarrow>
     e = ConflictError h \<and> inventory_le s s' \<and> h \<in> group_names s' \<and> hosts s' = hosts s"
proof (induction h gs s rule: join_groups.induct)
  case (1 host iv)
  then show ?case by simp
next
  case (2 host g gs iv)
  show ?case
  proof (cases "host \<in> group_names (add_group g iv)")
    case True
    with 2 show ?thesis by (auto simp: Let_def)
  next
    case False
    with 2 have "join_groups host gs (add_child g host (add_group g iv)) = Raised e s'"
      by (simp add: Let_def)
    with 2 False have IH: "e = ConflictError host \<and> inventory_le (add_child g host (add_group g iv)) s' \<and> host \<in> group_names s'
        \<and> hosts s' = hosts (add_child g host (add_group g iv))"
      by (simp add: Let_def)
    have "inventory_le iv (add_child g host (add_group g iv))"
      by (auto simp: inventory_le_def)
    with IH show ?thesis by (auto intro: inventory_le_trans)
  qed
qed

lemma join_groups_conflict:
  "h \<in> group_names s \<or> h = g \<Longrightarrow> join_groups h (g # gs) s = Raised (ConflictError h) (add_group g s)"
  by (auto simp: Let_def)

lemma delayed_pairs_Nil [simp]: "delayed_pairs [] = {}"
  by (simp add: delayed_pairs_def)

lemma delayed_pairs_Cons [simp]:
  "delayed_pairs ((g, cs) # d) = (\<lambda>c. (g, c)) ` set cs \<union> delayed_pairs d"
  by (auto simp: delayed_pairs_def)

lemma delayed_pairs_append [simp]:
  "delayed_pairs (delayed_append g c d) = insert (g, c) (delayed_pairs d)"
  by (induction g c d rule: delayed_append.induct) auto

lemma delayed_pairs_delay_children [simp]:
  "delayed_pairs (delay_children g cs d) = (\<lambda>c. (g, c)) ` set cs \<union> delayed_pairs d"
  by (induction g cs d rule: delay_children.induct) auto

lemma register_children_fields:
  "hosts (register_children g cs s) = hosts s"
  "group_names (register_children g cs s) = group_names s \<union> {c \<in> set cs. c \<notin> hosts s}"
  "child_edges (register_children g cs s) = child_edges s \<union> (\<lambda>c. (g, c)) ` set cs"
  "var_bindings (register_children g cs s) = var_bindings s"
  by (induction g cs s rule: register_children.induct) (auto simp: Let_def)

lemma register_delayed_fields:
  "hosts (register_delayed d s) = hosts s"
  "group_names (register_delayed d s) =
     group_names s \<union> {c. (\<exists>g. (g, c) \<in> delayed_pairs d) \<and> c \<notin> hosts s}"
  "child_edges (register_delayed d s) = child_edges s \<union> delayed_pairs d"
  "var_bindings (register_delayed d s) = var_bindings s"
  by (induction d s rule: register_delayed.induct) (auto simp: register_children_fields)

section \<open>Properties of the scan\<close>

lemma process_instance_Done_le:
  assumes "process_instance ty i (s, d) = Done (s', d')"
  shows "inventory_le s s' \<and> delayed_pairs d \<subseteq> delayed_pairs d'"
proof -
  consider (grp) "ty = ''ansible_group''" | (hst) "ty \<noteq> ''ansible_group''" "ty = ''ansible_host''"
    | (other) "ty \<noteq> ''ansible_group''" "ty \<noteq> ''ansible_host''"
    by blast
  then show ?thesis
  proof cases
    case grp
    with assms have s': "s' = apply_variables i (add_group (name i) s)"
      and d': "d' = (case children i of None \<Rightarrow> d | Some cs \<Rightarrow> delay_children (name i) cs d)"
      by (simp_all add: process_instance_def Let_def)
    have "inventory_le s (add_group (name i) s)" by simp
    then have "inventory_le s s'"
      unfolding s' by (rule inventory_le_trans) (rule inventory_le_apply_variables)
    moreover have "delayed_pairs d \<subseteq> delayed_pairs d'"
      unfolding d' by (auto split: option.splits)
    ultimately show ?thesis by simp
  next
    case hst
    show ?thesis
    proof (cases "groups i")
      case None
      with hst assms have "s' = apply_variables i (add_host (name i) s)" "d' = d"
        by (simp_all add: process_instance_def Let_def)
      moreover have "inventory_le s (apply_variables i (add_host (name i) s))"
        by (rule inventory_le_trans [OF _ inventory_le_apply_variables]) simp
      ultimately show ?thesis by simp
    next
      case (Some gs)
      with hst assms obtain s2 where j: "join_groups (name i) gs (add_host (name i) s) = Done s2"
        and s': "s' = apply_variables i s2" and d': "d' = d"
        by (auto simp: process_instance_def Let_def split: outcome.splits)
      from join_groups_Done [OF j] have "inventory_le (add_host (name i) s) s2"
        by (auto simp: inventory_le_def)
      then have "inventory_le s s2"
        by (rule inventory_le_trans [rotated]) simp
      then have "inventory_le s s'"
        unfolding s' by (rule inventory_le_trans) (rule inventory_le_apply_variables)
      with d' show ?thesis by simp
    qed
  next
    case other
    with assms show ?thesis by (simp add: process_instance_def)
  qed
qed

lemma process_instance_Raised:
  assumes "process_instance ty i (s, d) = Raised e s'"
  shows "ty = ''ansible_host'' \<and> e = ConflictError (name i) \<and> inventory_le s s'
         \<and> name i \<in> hosts s' \<and> name i \<in> group_names s'
         \<and> (\<exists>gs. groups i = Some gs \<and> gs \<noteq> [])"
proof -
  from assms have ty: "ty = ''ansible_host''"
    by (auto simp: process_instance_def Let_def split: if_splits)
  with assms obtain gs where gs: "groups i = Some gs"
    and j: "join_groups (name i) gs (add_host (name i) s) = Raised e s'"
    by (auto simp: process_instance_def Let_def split: option.splits outcome.splits)
  from join_groups_Raised [OF j]
  have "e = ConflictError (name i)" "inventory_le (add_host (name i) s) s'"
    "name i \<in> group_names s'" "hosts s' = hosts (add_host (name i) s)"
    by simp_all
  moreover have "inventory_le s s'"
    by (rule inventory_le_trans [OF _ \<open>inventory_le (add_host (name i) s) s'\<close>]) simp
  moreover from j have "gs \<noteq> []" by auto
  ultimately show ?thesis using ty gs by simp
qed

lemma process_instances_Done_le:
  "process_instances ty is (s, d) = Done (s', d') \<Longrightarrow>
     inventory_le s s' \<and> delayed_pairs d \<subseteq> delayed_pairs d'"
proof (induction "is" arbitrary: s d)
  case Nil
  then show ?case by simp
next
  case (Cons i "is")
  then obtain s1 d1 where st: "process_instance ty i (s, d) = Done (s1, d1)"
    and rest: "process_instances ty is (s1, d1) = Done (s', d')"
    by (auto split: outcome.splits)
  from process_instance_Done_le [OF st] Cons.IH [OF rest]
  show ?case by (blast intro: inventory_le_trans)
qed

lemma process_instances_Raised:
  "process_instances ty is (s, d) = Raised e s' \<Longrightarrow>
     ty = ''ansible_host'' \<and> inventory_le s s'
     \<and> (\<exists>i \<in> set is. e = ConflictError (name i) \<and> name i \<in> hosts s' \<and> name i \<in> group_names s'
           \<and> (\<exists>gs. groups i = Some gs \<and> gs \<noteq> []))"
proof (induction "is" arbitrary: s d)
  case Nil
  then show ?case by simp
next
  case (Cons i "is")
  show ?case
  proof (cases "process_instance ty i (s, d)")
    case (Done st1)
    obtain s1 d1 where st1: "st1 = (s1, d1)" by (cases st1)
    with Done Cons.prems have rest: "process_instances ty is (s1, d1) = Raised e s'"
      by simp
    from Done st1 have "inventory_le s s1"
      using process_instance_Done_le by blast
    with Cons.IH [OF rest] show ?thesis
      by (auto intro: inventory_le_trans)
  next
    case (Raised e1 s1)
    with Cons.prems have "e1 = e" "s1 = s'" by simp_all
    with Raised process_instance_Raised [of ty i s d e s'] show ?thesis
      by auto
  qed
qed

lemma scan_resources_Done_le:
  "scan_resources rs (s, d) = Done (s', d') \<Longrightarrow>
     inventory_le s s' \<and> delayed_pairs d \<subseteq> delayed_pairs d'"
proof (induction rs arbitrary: s d)
  case Nil
  then show ?case by simp
next
  case (Cons r rs)
  show ?case
  proof (cases "matches_provider r")
    case False
    with Cons show ?thesis by simp
  next
    case True
    with Cons.prems obtain s1 d1
      where st: "process_instances (rtype r) (instances r) (s, d) = Done (s1, d1)"
        and rest: "scan_resources rs (s1, d1) = Done (s', d')"
      by (auto split: outcome.splits)
    from process_instances_Done_le [OF st] Cons.IH [OF rest]
    show ?thesis by (blast intro: inventory_le_trans)
  qed
qed

lemma scan_resources_Raised:
  "scan_resources rs (s, d) = Raised e s' \<Longrightarrow>
     inventory_le s s'
     \<and> (\<exists>r \<in> set rs. matches_provider r \<and> rtype r = ''ansible_host''
          \<and> (\<exists>i \<in> set (instances r). e = ConflictError (name i) \<and> name i \<in> hosts s'
                \<and> name i \<in> group_names s' \<and> (\<exists>gs. groups i = Some gs \<and> gs \<noteq> [])))"
proof (induction rs arbitrary: s d)
  case Nil
  then show ?case by simp
next
  case (Cons r rs)
  show ?case
  proof (cases "matches_provider r")
    case False
    with Cons show ?thesis by simp
  next
    case True
    show ?thesis
    proof (cases "process_instances (rtype r) (instances r) (s, d)")
      case (Done st1)
      obtain s1 d1 where st1: "st1 = (s1, d1)" by (cases st1)
      with Done True Cons.prems have rest: "scan_resources rs (s1, d1) = Raised e s'"
        by simp
      from Done st1 have "inventory_le s s1"
        using process_instances_Done_le by blast
      with Cons.IH [OF rest] show ?thesis
        by (auto intro: inventory_le_trans)
    next
      case (Raised e1 s1)
      with True Cons.prems have "e1 = e" "s1 = s'" by simp_all
      with Raised True process_instances_Raised [of "rtype r" "instances r" s d e s']
      show ?thesis by auto
    qed
  qed
qed

lemma scan_resources_append:
  "scan_resources (pre @ post) st =
     (case scan_resources pre st of Raised e s \<Rightarrow> Raised e s | Done st1 \<Rightarrow> scan_resources post st1)"
  by (induction pre arbitrary: st) (auto split: outcome.splits)

lemma process_instances_append:
  "process_instances ty (pre @ post) st =
     (case process_instances ty pre st of Raised e s \<Rightarrow> Raised e s
      | Done st1 \<Rightarrow> process_instances ty post st1)"
  by (induction pre arbitrary: st) (auto split: outcome.splits)

lemma register_delayed_le: "inventory_le s (register_delayed d s)"
  by (auto simp: inventory_le_def register_delayed_fields)

lemma process_instances_reaches:
  "process_instances ty is (s, d) = Done (s', d') \<Longrightarrow> i \<in> set is \<Longrightarrow>
     \<exists>s1 d1 s2 d2. process_instance ty i (s1, d1) = Done (s2, d2) \<and> inventory_le s s1
        \<and> inventory_le s2 s' \<and> delayed_pairs d2 \<subseteq> delayed_pairs d'"
proof (induction "is" arbitrary: s d)
  case Nil
  then show ?case by simp
next
  case (Cons j "is")
  then obtain sj dj where step: "process_instance ty j (s, d) = Done (sj, dj)"
    and rest: "process_instances ty is (sj, dj) = Done (s', d')"
    by (auto split: outcome.splits)
  show ?case
  proof (cases "i = j")
    case True
    with step process_instances_Done_le [OF rest] show ?thesis
      by (intro exI [of _ s] exI [of _ d] exI [of _ sj] exI [of _ dj]) simp
  next
    case False
    with Cons.prems have "i \<in> set is" by simp
    from Cons.IH [OF rest this] obtain s1 d1 s2 d2
      where "process_instance ty i (s1, d1) = Done (s2, d2)" "inventory_le sj s1"
        "inventory_le s2 s'" "delayed_pairs d2 \<subseteq> delayed_pairs d'"
      by blast
    moreover from process_instance_Done_le [OF step] have "inventory_le s sj" by simp
    ultimately show ?thesis
      by (blast intro: inventory_le_trans)
  qed
qed

lemma scan_resources_reaches:
  "scan_resources rs (s, d) = Done (s', d') \<Longrightarrow> r \<in> set rs \<Longrightarrow> matches_provider r \<Longrightarrow>
   i \<in> set (instances r) \<Longrightarrow>
     \<exists>s1 d1 s2 d2. process_instance (rtype r) i (s1, d1) = Done (s2, d2) \<and> inventory_le s s1
        \<and> inventory_le s2 s' \<and> delayed_pairs d2 \<subseteq> delayed_pairs d'"
proof (induction rs arbitrary: s d)
  case Nil
  then show ?case by simp
next
  case (Cons q rs)
  show ?case
  proof (cases "matches_provider q")
    case False
    with Cons.prems have rest: "scan_resources rs (s, d) = Done (s', d')" and "r \<in> set rs"
      by auto
    from Cons.IH [OF rest \<open>r \<in> set rs\<close> Cons.prems(3,4)] show ?thesis .
  next
    case True
    with Cons.prems obtain sq dq
      where step: "process_instances (rtype q) (instances q) (s, d) = Done (sq, dq)"
        and rest: "scan_resources rs (sq, dq) = Done (s', d')"
      by (auto split: outcome.splits)
    show ?thesis
    proof (cases "r = q")
      case True
      with step Cons.prems(4) obtain s1 d1 s2 d2
        where "process_instance (rtype r) i (s1, d1) = Done (s2, d2)" "inventory_le s s1"
          "inventory_le s2 sq" "delayed_pairs d2 \<subseteq> delayed_pairs dq"
        using process_instances_reaches by blast
      moreover from scan_resources_Done_le [OF rest]
      have "inventory_le sq s'" "delayed_pairs dq \<subseteq> delayed_pairs d'" by simp_all
      ultimately show ?thesis
        by (blast intro: inventory_le_trans)
    next
      case False
      with Cons.prems have "r \<in> set rs" by simp
      from Cons.IH [OF rest this Cons.prems(3,4)] obtain s1 d1 s2 d2
        where "process_instance (rtype r) i (s1, d1) = Done (s2, d2)" "inventory_le sq s1"
          "inventory_le s2 s'" "delayed_pairs d2 \<subseteq> delayed_pairs d'"
        by blast
      moreover from process_instances_Done_le [OF step] have "inventory_le s sq" by simp
      ultimately show ?thesis
        by (blast intro: inventory_le_trans)
    qed
  qed
qed

lemma parse_Done:
  "parse_resources rs s0 = Done s \<Longrightarrow>
     \<exists>s1 d. scan_resources rs (s0, []) = Done (s1, d) \<and> s = register_delayed d s1"
  by (auto simp: parse_resources_def split: outcome.splits)

lemma host_step_joined:
  assumes "process_instance ''ansible_host'' i (s, d) = Done (s', d')"
    and "groups i = Some gs" and "g \<in> set gs"
  shows "g \<in> group_names s' \<and> (g, name i) \<in> child_edges s' \<and> name i \<in> hosts s'"
proof -
  from assms(1,2) obtain s2 where j: "join_groups (name i) gs (add_host (name i) s) = Done s2"
    and s': "s' = apply_variables i s2"
    by (auto simp: process_instance_def Let_def split: outcome.splits)
  from join_groups_Done [OF j] assms(3) show ?thesis
    unfolding s' by auto
qed

lemma group_step_delayed:
  assumes "process_instance ''ansible_group'' i (s, d) = Done (s', d')"
  shows "name i \<in> group_names s' \<and> (\<forall>cs. children i = Some cs \<longrightarrow> (\<lambda>c. (name i, c)) ` set cs \<subseteq> delayed_pairs d')"
  using assms by (auto simp: process_instance_def Let_def)

lemma matches_provider_iff: "matches_provider r \<longleftrightarrow> provider r = Some ansible_provider"
  by (auto simp: matches_provider_def ansible_provider_nonempty [symmetric] split: option.splits)

lemma skip_all:
  "\<forall>r \<in> set rs. provider r \<noteq> Some ansible_provider \<Longrightarrow> scan_resources rs st = Done st"
  by (induction rs) (auto simp: matches_provider_def ansible_provider_nonempty [symmetric] split: option.splits)

lemma parse_raised_scan: "raised (parse_resources rs s0) = raised (scan_resources rs (s0, []))"
  by (auto simp: parse_resources_def split: outcome.splits)

lemma register_delayed_cong:
  "delayed_pairs d1 = delayed_pairs d2 \<Longrightarrow> register_delayed d1 s = register_delayed d2 s"
  by (rule inventory.equality) (simp_all add: register_delayed_fields)

lemma same_progress_Done [simp]:
  "same_progress (Done (s1, d1)) (Done (s2, d2)) \<longleftrightarrow> s1 = s2 \<and> delayed_pairs d1 = delayed_pairs d2"
  by (simp add: same_progress_def)

lemma same_progress_Raised [simp]:
  "same_progress (Raised e s) b \<longleftrightarrow> b = Raised e s"
  by (simp add: same_progress_def)

lemma same_progress_DoneE:
  "same_progress (Done (s1, d1)) b \<Longrightarrow> \<exists>d2. b = Done (s1, d2) \<and> delayed_pairs d1 = delayed_pairs d2"
  by (auto simp: same_progress_def split: outcome.splits)

lemma process_instance_same:
  "delayed_pairs d1 = delayed_pairs d2 \<Longrightarrow>
     same_progress (process_instance ty i (s, d1)) (process_instance ty i (s, d2))"
  by (auto simp: process_instance_def Let_def split: option.splits outcome.splits)

lemma process_instances_same:
  "delayed_pairs d1 = delayed_pairs d2 \<Longrightarrow>
     same_progress (process_instances ty is (s, d1)) (process_instances ty is (s, d2))"
proof (induction "is" arbitrary: s d1 d2)
  case Nil
  then show ?case by simp
next
  case (Cons i "is")
  show ?case
  proof (cases "process_instance ty i (s, d1)")
    case (Done st)
    obtain s' e1 where st: "st = (s', e1)" by (cases st)
    from process_instance_same [OF Cons.prems, of ty i s] Done st
    obtain e2 where "process_instance ty i (s, d2) = Done (s', e2)"
      and "delayed_pairs e1 = delayed_pairs e2"
      using same_progress_DoneE by fastforce
    with Done st Cons.IH [of e1 e2 s'] show ?thesis by simp
  next
    case (Raised e s')
    with process_instance_same [OF Cons.prems, of ty i s] show ?thesis by simp
  qed
qed

lemma scan_resources_same:
  "delayed_pairs d1 = delayed_pairs d2 \<Longrightarrow>
     same_progress (scan_resources rs (s, d1)) (scan_resources rs (s, d2))"
proof (induction rs arbitrary: s d1 d2)
  case Nil
  then show ?case by simp
next
  case (Cons r rs)
  show ?case
  proof (cases "matches_provider r")
    case False
    with Cons show ?thesis by simp
  next
    case True
    show ?thesis
    proof (cases "process_instances (rtype r) (instances r) (s, d1)")
      case (Done st)
      obtain s' e1 where st: "st = (s', e1)" by (cases st)
      from process_instances_same [OF Cons.prems, of "rtype r" "instances r" s] Done st
      obtain e2 where "process_instances (rtype r) (instances r) (s, d2) = Done (s', e2)"
        and "delayed_pairs e1 = delayed_pairs e2"
        using same_progress_DoneE by fastforce
      with Done st True Cons.IH [of e1 e2 s'] show ?thesis by simp
    next
      case (Raised e s')
      with True process_instances_same [OF Cons.prems, of "rtype r" "instances r" s]
      show ?thesis by simp
    qed
  qed
qed

lemma same_progress_parse:
  assumes "same_progress (scan_resources rs st1) (scan_resources rs st2)"
  shows "(case scan_resources rs st1 of Raised e s \<Rightarrow> Raised e s
          | Done (s, d) \<Rightarrow> Done (register_delayed d s))
       = (case scan_resources rs st2 of Raised e s \<Rightarrow> Raised e s
          | Done (s, d) \<Rightarrow> Done (register_delayed d s))"
proof (cases "scan_resources rs st1")
  case (Done st)
  obtain s d where "st = (s, d)" by (cases st)
  with Done assms show ?thesis
    by (auto dest!: same_progress_DoneE intro: register_delayed_cong)
next
  case (Raised e s)
  with assms show ?thesis by simp
qed

lemma set_variable_twist:
  "n1 \<noteq> n2 \<Longrightarrow> set_variable n1 k1 v1 (set_variable n2 k2 v2 s)
     = set_variable n2 k2 v2 (set_variable n1 k1 v1 s)"
  by (simp add: set_variable_def fun_upd_twist)

lemma set_variables_set_variable:
  "n1 \<noteq> n2 \<Longrightarrow> set_variables n1 kvs (set_variable n2 k v s)
     = set_variable n2 k v (set_variables n1 kvs s)"
  by (induction n1 kvs s rule: set_variables.induct) (simp_all add: set_variable_twist)

lemma set_variables_twist:
  "n1 \<noteq> n2 \<Longrightarrow> set_variables n1 kvs1 (set_variables n2 kvs2 s)
     = set_variables n2 kvs2 (set_variables n1 kvs1 s)"
  by (induction n2 kvs2 s rule: set_variables.induct) (simp_all add: set_variables_set_variable)

lemma add_group_set_variable:
  "add_group g (set_variable n k v s) = set_variable n k v (add_group g s)"
  by (simp add: add_group_def set_variable_def)

lemma add_group_set_variables:
  "add_group g (set_variables n kvs s) = set_variables n kvs (add_group g s)"
  by (induction n kvs s rule: set_variables.induct) (simp_all add: add_group_set_variable)

lemma add_group_twist: "add_group g (add_group h s) = add_group h (add_group g s)"
  by (simp add: add_group_def insert_commute)

lemma group_steps_commute:
  assumes "name ia \<noteq> name ib"
  shows "apply_variables ib (add_group (name ib) (apply_variables ia (add_group (name ia) s)))
       = apply_variables ia (add_group (name ia) (apply_variables ib (add_group (name ib) s)))"
  using assms
  by (cases "variables ia"; cases "variables ib")
     (simp_all add: apply_variables_def add_group_set_variables add_group_twist set_variables_twist)

lemma group_resources_commute:
  assumes "matches_provider ra" "rtype ra = ''ansible_group''" "instances ra = [ia]"
    and "matches_provider rb" "rtype rb = ''ansible_group''" "instances rb = [ib]"
    and "name ia \<noteq> name ib"
  shows "parse_resources (pre @ ra # rb # post) s0 = parse_resources (pre @ rb # ra # post) s0"
proof (cases "scan_resources pre (s0, [])")
  case (Raised e s)
  then show ?thesis
    by (simp add: parse_resources_def scan_resources_append)
next
  case (Done st)
  obtain s d where st: "st = (s, d)" by (cases st)
  define s' where "s' = apply_variables ib (add_group (name ib) (apply_variables ia (add_group (name ia) s)))"
  define dab where "dab = (case children ib of None \<Rightarrow> (case children ia of None \<Rightarrow> d | Some cs \<Rightarrow> delay_children (name ia) cs d)
      | Some cs \<Rightarrow> delay_children (name ib) cs (case children ia of None \<Rightarrow> d | Some cs \<Rightarrow> delay_children (name ia) cs d))"
  define dba where "dba = (case children ia of None \<Rightarrow> (case children ib of None \<Rightarrow> d | Some cs \<Rightarrow> delay_children (name ib) cs d)
      | Some cs \<Rightarrow> delay_children (name ia) cs (case children ib of None \<Rightarrow> d | Some cs \<Rightarrow> delay_children (name ib) cs d))"
  have pairs: "delayed_pairs dab = delayed_pairs dba"
    unfolding dab_def dba_def by (auto split: option.splits)
  from assms have ab: "scan_resources (ra # rb # post) (s, d) = scan_resources post (s', dab)"
    by (simp add: process_instance_def Let_def s'_def dab_def)
  from assms have ba: "scan_resources (rb # ra # post) (s, d) = scan_resources post (s', dba)"
    by (simp add: process_instance_def Let_def s'_def dba_def group_steps_commute [OF assms(7)])
  from scan_resources_same [OF pairs, of post s']
  have "same_progress (scan_resources post (s', dab)) (scan_resources post (s', dba))" .
  from same_progress_parse [OF this] Done st ab ba show ?thesis
    by (simp add: parse_resources_def scan_resources_append)
qed

lemma join_groups_passes:
  "h \<notin> group_names s \<Longrightarrow> h \<notin> set gs \<Longrightarrow> \<exists>s'. join_groups h gs s = Done s'"
  by (induction h gs s rule: join_groups.induct) (auto simp: Let_def)

lemma scan_resources_final_le:
  "inventory_le s
     (final_inventory (case scan_resources rs (s, d) of Raised e s' \<Rightarrow> Raised e s'
        | Done (s', d') \<Rightarrow> Done (register_delayed d' s')))"
proof (cases "scan_resources rs (s, d)")
  case (Done st)
  obtain s' d' where st: "st = (s', d')" by (cases st)
  with Done scan_resources_Done_le [of rs s d s' d'] register_delayed_le [of s' d']
  show ?thesis by (auto intro: inventory_le_trans)
next
  case (Raised e s')
  with scan_resources_Raised [of rs s d e s'] show ?thesis by simp
qed

lemma host_joined_then_final:
  assumes pre: "scan_resources pre (s0, []) = Done st1"
    and r: "matches_provider r" "rtype r = ''ansible_host''" "instances r = ipre @ i # ipost"
    and ipre: "process_instances ''ansible_host'' ipre st1 = Done (s2, d2)"
    and gs: "groups i = Some gs" "g \<in> set gs"
    and free: "name i \<notin> group_names s2" "name i \<notin> set gs"
  shows "g \<in> group_names (final_inventory (parse_resources (pre @ r # post) s0))
       \<and> (g, name i) \<in> child_edges (final_inventory (parse_resources (pre @ r # post) s0))
       \<and> name i \<in> hosts (final_inventory (parse_resources (pre @ r # post) s0))"
proof -
  let ?fin = "final_inventory (parse_resources (pre @ r # post) s0)"
  from free obtain sj where j: "join_groups (name i) gs (add_host (name i) s2) = Done sj"
    using join_groups_passes [of "name i" "add_host (name i) s2" gs] by auto
  define s3 where "s3 = apply_variables i sj"
  from j gs have step: "process_instance ''ansible_host'' i (s2, d2) = Done (s3, d2)"
    by (simp add: process_instance_def Let_def s3_def)
  from host_step_joined [OF step gs]
  have in3: "g \<in> group_names s3" "(g, name i) \<in> child_edges s3" "name i \<in> hosts s3"
    by simp_all
  have le: "inventory_le s3 ?fin"
  proof (cases "process_instances ''ansible_host'' ipost (s3, d2)")
    case (Raised e s)
    with pre r ipre step have "parse_resources (pre @ r # post) s0 = Raised e s"
      by (simp add: parse_resources_def scan_resources_append process_instances_append)
    with process_instances_Raised [OF Raised] show ?thesis by simp
  next
    case (Done st)
    obtain s4 d4 where st: "st = (s4, d4)" by (cases st)
    with Done pre r ipre step
    have "parse_resources (pre @ r # post) s0
        = (case scan_resources post (s4, d4) of Raised e s' \<Rightarrow> Raised e s'
           | Done (s', d') \<Rightarrow> Done (register_delayed d' s'))"
      by (simp add: parse_resources_def scan_resources_append process_instances_append)
    with scan_resources_final_le [of s4 post d4] have "inventory_le s4 ?fin" by simp
    moreover from Done st process_instances_Done_le have "inventory_le s3 s4" by blast
    ultimately show ?thesis by (blast intro: inventory_le_trans)
  qed
  with in3 show ?thesis by (auto simp: inventory_le_def)
qed

lemma no_groups_no_error:
  assumes "\<forall>r \<in> set rs. matches_provider r \<and> rtype r = ''ansible_host'' \<longrightarrow>
             (\<forall>i \<in> set (instances r). groups i = None)"
  shows "raised (parse_resources rs s0) = None"
proof (cases "scan_resources rs (s0, [])")
  case (Done st)
  then show ?thesis by (simp add: parse_raised_scan)
next
  case (Raised e s)
  from scan_resources_Raised [OF Raised] assms show ?thesis by auto
qed

lemma parse_reads_default_state:
  assumes "nodes fs [''.terraform'', ''environment''] = None"
    and "nodes fs [''terraform.tfstate''] = Some (File t)"
    and "loads t = Inr rs"
  shows "parse fs loads iv = parse_resources rs iv"
  using assms
  by (simp add: parse_def get_tf_state_def select_state_file_def load_state_file_def
      path_exists_def read_text_def env_path_def default_state_file_def)

lemma finished_run_host_joined:
  assumes "parse_resources rs s0 = Done s"
    and "r \<in> set rs" and "matches_provider r" and "rtype r = ''ansible_host''"
    and "i \<in> set (instances r)" and "groups i = Some gs" and "g \<in> set gs"
  shows "g \<in> group_names s \<and> (g, name i) \<in> child_edges s \<and> name i \<in> hosts s"
proof -
  from parse_Done [OF assms(1)] obtain s1 d
    where scan: "scan_resources rs (s0, []) = Done (s1, d)" and s: "s = register_delayed d s1"
    by blast
  from scan_resources_reaches [OF scan assms(2,3,5)] assms(4) obtain sa da sb db
    where step: "process_instance ''ansible_host'' i (sa, da) = Done (sb, db)"
      and le: "inventory_le sb s1"
    by auto
  from host_step_joined [OF step assms(6,7)]
  have "g \<in> group_names sb" "(g, name i) \<in> child_edges sb" "name i \<in> hosts sb"
    by simp_all
  moreover from le register_delayed_le [of s1 d] have "inventory_le sb s"
    unfolding s by (rule inventory_le_trans)
  ultimately show ?thesis
    by (auto simp: inventory_le_def)
qed

lemma finished_run_child_group:
  assumes "parse_resources rs s0 = Done s"
    and "ra \<in> set rs" and "matches_provider ra" and "rtype ra = ''ansible_group''"
    and "ia \<in> set (instances ra)" and "children ia = Some cs" and "b \<in> set cs"
    and "rb \<in> set rs" and "matches_provider rb" and "rtype rb = ''ansible_group''"
    and "ib \<in> set (instances rb)" and "name ib = b"
  shows "b \<in> group_names s \<and> (name ia, b) \<in> child_edges s"
proof -
  from parse_Done [OF assms(1)] obtain s1 d
    where scan: "scan_resources rs (s0, []) = Done (s1, d)" and s: "s = register_delayed d s1"
    by blast
  from scan_resources_reaches [OF scan assms(2,3,5)] assms(4) obtain sa da sb db
    where "process_instance ''ansible_group'' ia (sa, da) = Done (sb, db)"
      and "delayed_pairs db \<subseteq> delayed_pairs d"
    by auto
  with group_step_delayed [of ia sa da sb db] assms(6,7)
  have edge: "(name ia, b) \<in> delayed_pairs d" by auto
  from scan_resources_reaches [OF scan assms(8,9,11)] assms(10) obtain sc dc sd dd
    where "process_instance ''ansible_group'' ib (sc, dc) = Done (sd, dd)"
      and "inventory_le sd s1"
    by auto
  with group_step_delayed [of ib sc dc sd dd] assms(12)
  have "b \<in> group_names s1" by (auto simp: inventory_le_def)
  with edge show ?thesis
    unfolding s by (simp add: register_delayed_fields)
qed

lemma host_step_without_groups:
  assumes "groups i = None"
  shows "process_instance ''ansible_host'' i (s, d) = Done (apply_variables i (add_host (name i) s), d)"
  using assms by (simp add: process_instance_def)

lemma join_groups_raise_point:
  "join_groups h gs s = Raised e s' \<Longrightarrow>
     \<exists>gpre g gpost sp. gs = gpre @ g # gpost \<and> join_groups h gpre s = Done sp
        \<and> e = ConflictError h \<and> s' = add_group g sp"
proof (induction h gs s rule: join_groups.induct)
  case (1 host iv)
  then show ?case by simp
next
  case (2 host g gs iv)
  show ?case
  proof (cases "host \<in> group_names (add_group g iv)")
    case True
    with 2 have "e = ConflictError host" "s' = add_group g iv"
      by (simp_all add: Let_def)
    then have "g # gs = [] @ g # gs \<and> join_groups host [] iv = Done iv
        \<and> e = ConflictError host \<and> s' = add_group g iv"
      by simp
    then show ?thesis by blast
  next
    case False
    with 2 have "join_groups host gs (add_child g host (add_group g iv)) = Raised e s'"
      by (simp add: Let_def)
    with 2 False obtain gpre g' gpost sp
      where "gs = gpre @ g' # gpost"
        and "join_groups host gpre (add_child g host (add_group g iv)) = Done sp"
        and "e = ConflictError host" "s' = add_group g' sp"
      by (auto simp: Let_def)
    with False have "g # gs = (g # gpre) @ g' # gpost \<and> join_groups host (g # gpre) iv = Done sp
        \<and> e = ConflictError host \<and> s' = add_group g' sp"
      by (simp add: Let_def)
    then show ?thesis by blast
  qed
qed

lemma process_instances_raise_point:
  "process_instances ty is st = Raised e s' \<Longrightarrow>
     \<exists>ipre i ipost s2 d2. is = ipre @ i # ipost \<and> process_instances ty ipre st = Done (s2, d2)
        \<and> process_instance ty i (s2, d2) = Raised e s'"
proof (induction "is" arbitrary: st)
  case Nil
  then show ?case by simp
next
  case (Cons j "is")
  show ?case
  proof (cases "process_instance ty j st")
    case (Done st1)
    with Cons.prems have "process_instances ty is st1 = Raised e s'" by simp
    from Cons.IH [OF this] obtain ipre i ipost s2 d2
      where "is = ipre @ i # ipost" "process_instances ty ipre st1 = Done (s2, d2)"
        "process_instance ty i (s2, d2) = Raised e s'"
      by blast
    with Done have "j # is = (j # ipre) @ i # ipost
        \<and> process_instances ty (j # ipre) st = Done (s2, d2)
        \<and> process_instance ty i (s2, d2) = Raised e s'"
      by simp
    then show ?thesis by blast
  next
    case (Raised e1 s1)
    obtain s d where "st = (s, d)" by (cases st)
    with Raised Cons.prems have "j # is = [] @ j # is
        \<and> process_instances ty [] st = Done (s, d)
        \<and> process_instance ty j (s, d) = Raised e s'"
      by simp
    then show ?thesis by blast
  qed
qed

lemma scan_resources_raise_point:
  "scan_resources rs st = Raised e s' \<Longrightarrow>
     \<exists>pre r post st1. rs = pre @ r # post \<and> matches_provider r
        \<and> scan_resources pre st = Done st1
        \<and> process_instances (rtype r) (instances r) st1 = Raised e s'"
proof (induction rs arbitrary: st)
  case Nil
  then show ?case by simp
next
  case (Cons q rs)
  have step: "\<exists>pre r post st1. q # rs = pre @ r # post \<and> matches_provider r
        \<and> scan_resources pre st = Done st1
        \<and> process_instances (rtype r) (instances r) st1 = Raised e s'"
    if rest: "scan_resources rs st' = Raised e s'" and q: "scan_resources [q] st = Done st'" for st'
  proof -
    from Cons.IH [OF rest] obtain pre r post st1
      where "rs = pre @ r # post" "matches_provider r" "scan_resources pre st' = Done st1"
        "process_instances (rtype r) (instances r) st1 = Raised e s'"
      by blast
    with q have "q # rs = (q # pre) @ r # post \<and> matches_provider r
        \<and> scan_resources (q # pre) st = Done st1
        \<and> process_instances (rtype r) (instances r) st1 = Raised e s'"
      using scan_resources_append [of "[q]" pre st] by simp
    then show ?thesis by blast
  qed
  show ?case
  proof (cases "matches_provider q")
    case False
    with Cons.prems have "scan_resources rs st = Raised e s'" "scan_resources [q] st = Done st"
      by simp_all
    then show ?thesis by (rule step)
  next
    case True
    show ?thesis
    proof (cases "process_instances (rtype q) (instances q) st")
      case (Done st')
      with True Cons.prems have "scan_resources rs st' = Raised e s'" "scan_resources [q] st = Done st'"
        by simp_all
      then show ?thesis by (rule step)
    next
      case (Raised e1 s1)
      with True Cons.prems have "q # rs = [] @ q # rs \<and> matches_provider q
          \<and> scan_resources [] st = Done st
          \<and> process_instances (rtype q) (instances q) st = Raised e s'"
        by simp
      then show ?thesis by blast
    qed
  qed
qed

lemma raise_point:
  assumes "parse_resources rs s0 = Raised e s"
  shows "\<exists>pre r post ipre i ipost gpre g gpost st1 s2 d2 sp.
           rs = pre @ r # post \<and> matches_provider r \<and> rtype r = ''ansible_host''
           \<and> instances r = ipre @ i # ipost \<and> groups i = Some (gpre @ g # gpost)
           \<and> scan_resources pre (s0, []) = Done st1
           \<and> process_instances ''ansible_host'' ipre st1 = Done (s2, d2)
           \<and> join_groups (name i) gpre (add_host (name i) s2) = Done sp
           \<and> e = ConflictError (name i) \<and> s = add_group g sp"
proof -
  from assms have "scan_resources rs (s0, []) = Raised e s"
    by (auto simp: parse_resources_def split: outcome.splits)
  from scan_resources_raise_point [OF this] obtain pre r post st1
    where rs: "rs = pre @ r # post" "matches_provider r" "scan_resources pre (s0, []) = Done st1"
      and r: "process_instances (rtype r) (instances r) st1 = Raised e s"
    by blast
  from process_instances_raise_point [OF r] obtain ipre i ipost s2 d2
    where ins: "instances r = ipre @ i # ipost"
      "process_instances (rtype r) ipre st1 = Done (s2, d2)"
      and i: "process_instance (rtype r) i (s2, d2) = Raised e s"
    by blast
  from process_instance_Raised [OF i] have ty: "rtype r = ''ansible_host''" by simp
  with i obtain gs where gs: "groups i = Some gs"
    and j: "join_groups (name i) gs (add_host (name i) s2) = Raised e s"
    by (auto simp: process_instance_def Let_def split: option.splits outcome.splits)
  from join_groups_raise_point [OF j] obtain gpre g gpost sp
    where "gs = gpre @ g # gpost" "join_groups (name i) gpre (add_host (name i) s2) = Done sp"
      "e = ConflictError (name i)" "s = add_group g sp"
    by blast
  with rs ins ty gs have "rs = pre @ r # post \<and> matches_provider r \<and> rtype r = ''ansible_host''
           \<and> instances r = ipre @ i # ipost \<and> groups i = Some (gpre @ g # gpost)
           \<and> scan_resources pre (s0, []) = Done st1
           \<and> process_instances ''ansible_host'' ipre st1 = Done (s2, d2)
           \<and> join_groups (name i) gpre (add_host (name i) s2) = Done sp
           \<and> e = ConflictError (name i) \<and> s = add_group g sp"
    by simp
  then show ?thesis by blast
qed

lemma var_bindings_set_variables:
  "var_bindings (set_variables n kvs s) =
     (\<lambda>ok. if fst ok = n then
               (case map_of (rev kvs) (snd ok) of None \<Rightarrow> var_bindings s ok | Some v \<Rightarrow> Some v)
             else var_bindings s ok)"
proof (induction n kvs s rule: set_variables.induct)
  case (1 owner iv)
  then show ?case by (simp add: fun_eq_iff)
next
  case (2 owner k v kvs iv)
  show ?case
    unfolding set_variables.simps 2
    by (auto simp: fun_eq_iff map_add_def split: option.splits)
qed

lemma set_variables_any_order:
  assumes "distinct (map fst x)" "distinct (map fst y)" "set x = set y"
  shows "set_variables n x s = set_variables n y s"
proof (rule inventory.equality)
  from assms have "map_of x = map_of y"
    by (simp add: map_of_inject_set)
  moreover from assms have "map_of (rev x) = map_of x" "map_of (rev y) = map_of y"
    by (simp_all add: map_of_inject_set rev_map [symmetric])
  ultimately show "var_bindings (set_variables n x s) = var_bindings (set_variables n y s)"
    by (simp add: var_bindings_set_variables fun_eq_iff)
qed simp_all

lemma apply_variables_same:
  assumes "same_attributes i j"
  shows "apply_variables i s = apply_variables j s"
proof (cases "variables i = variables j")
  case True
  moreover from assms have "name i = name j" by (simp add: same_attributes_def)
  ultimately show ?thesis by (simp add: apply_variables_def split: option.splits)
next
  case False
  with assms obtain x y where xy: "variables i = Some x" "variables j = Some y"
    and "distinct (map fst x)" "distinct (map fst y)" "set x = set y"
    by (auto simp: same_attributes_def same_variables_def split: option.splits)
  then have "set_variables (name i) x s = set_variables (name i) y s"
    by (intro set_variables_any_order)
  moreover from assms have "name i = name j" by (simp add: same_attributes_def)
  ultimately show ?thesis using xy by (simp add: apply_variables_def)
qed

lemma process_instance_same_attributes:
  assumes "same_attributes i j"
  shows "process_instance ty i st = process_instance ty j st"
proof -
  from assms have eq: "name i = name j" "children i = children j" "groups i = groups j"
    by (simp_all add: same_attributes_def)
  from assms have vars: "apply_variables i s = apply_variables j s" for s
    by (rule apply_variables_same)
  show ?thesis
    by (cases st) (simp add: process_instance_def eq vars Let_def split: option.splits outcome.splits)
qed

lemma process_instances_same_attributes:
  "list_all2 same_attributes is js \<Longrightarrow> process_instances ty is st = process_instances ty js st"
proof (induction "is" js arbitrary: st rule: list_all2_induct)
  case Nil
  then show ?case by simp
next
  case (Cons i "is" j js)
  then show ?case
    by (simp add: process_instance_same_attributes [of i j] split: outcome.splits)
qed

lemma scan_resources_same_document:
  "list_all2 same_resource rs qs \<Longrightarrow> scan_resources rs st = scan_resources qs st"
proof (induction rs qs arbitrary: st rule: list_all2_induct)
  case Nil
  then show ?case by simp
next
  case (Cons r rs q qs)
  from Cons(1) have "matches_provider r = matches_provider q" "rtype r = rtype q"
    and "process_instances (rtype r) (instances r) st = process_instances (rtype r) (instances q) st"
    by (simp_all add: same_resource_def matches_provider_def process_instances_same_attributes)
  with Cons.IH show ?case by (simp split: outcome.splits)
qed

lemma delayed_pairs_set: "set d1 = set d2 \<Longrightarrow> delayed_pairs d1 = delayed_pairs d2"
  by (simp add: delayed_pairs_def)

section \<open>Properties of the printed path\<close>

lemma split_sep_plain: "CHR ''/'' \<notin> set x \<Longrightarrow> split_sep x = [x]"
  by (induction x) auto

lemma split_sep_append:
  "CHR ''/'' \<notin> set x \<Longrightarrow> split_sep (x @ CHR ''/'' # y) = x # split_sep y"
  by (induction x) auto

lemma split_sep_join_sep:
  "segs \<noteq> [] \<Longrightarrow> \<forall>x \<in> set segs. CHR ''/'' \<notin> set x \<Longrightarrow> split_sep (join_sep segs) = segs"
  by (induction segs rule: join_sep.induct) (auto simp: split_sep_plain split_sep_append)

lemma rel_parts_join_sep:
  "\<forall>x \<in> set segs. plain_name x \<Longrightarrow> rel_parts (join_sep segs) = segs"
proof (cases segs)
  case Nil
  then show ?thesis by (simp add: rel_parts_def)
next
  case (Cons a list)
  assume p: "\<forall>x \<in> set segs. plain_name x"
  with Cons have "split_sep (join_sep segs) = segs"
    by (intro split_sep_join_sep) (auto simp: plain_name_def)
  with p show ?thesis
    by (auto simp: rel_parts_def plain_name_def filter_id_conv)
qed

lemma rel_parts_plain: "plain_name x \<Longrightarrow> rel_parts x = [x]"
  using rel_parts_join_sep [of "[x]"] by simp

lemma plain_name_hd: "plain_name x \<Longrightarrow> hd x \<noteq> CHR ''/''"
  by (cases x) (auto simp: plain_name_def)

lemma join_sep_no_leading_slash:
  "\<forall>x \<in> set segs. plain_name x \<Longrightarrow> join_sep segs = [] \<or> hd (join_sep segs) \<noteq> CHR ''/''"
proof (induction segs rule: join_sep.induct)
  case 1
  then show ?case by simp
next
  case (2 x)
  then show ?case by (simp add: plain_name_hd)
next
  case (3 x y ys)
  then have "plain_name x" by simp
  then have "x \<noteq> []" "hd x \<noteq> CHR ''/''"
    by (simp_all add: plain_name_hd) (simp add: plain_name_def)
  then show ?case by (simp add: hd_append)
qed

lemma splitroot_rooted:
  assumes "\<forall>x \<in> set segs. plain_name x"
  shows "splitroot (CHR ''/'' # join_sep segs) = (''/'', join_sep segs)"
proof -
  from join_sep_no_leading_slash [OF assms]
  have "dropWhile (\<lambda>c. c = CHR ''/'') (join_sep segs) = join_sep segs"
    by (cases "join_sep segs") auto
  then show ?thesis by (simp add: splitroot_def)
qed

lemma splitroot_plain: "plain_name x \<Longrightarrow> splitroot x = ([], x)"
  by (simp add: splitroot_def plain_name_hd)

lemma join_segment_plain:
  "plain_name x \<Longrightarrow> join_segment p x = p\<lparr>parts := parts p @ [x]\<rparr>"
  by (auto simp: join_segment_def splitroot_plain rel_parts_plain plain_name_def)

lemma foldl_join_segment_plain:
  "\<forall>x \<in> set xs. plain_name x \<Longrightarrow> foldl join_segment p xs = p\<lparr>parts := parts p @ xs\<rparr>"
  by (induction xs arbitrary: p) (simp_all add: join_segment_plain)

lemma Path_cwd_plain:
  assumes "cwd fs = ''/'' @ join_sep segs" and "\<forall>x \<in> set segs. plain_name x"
  shows "Path_cwd fs = \<lparr>root = ''/'', parts = segs\<rparr>"
  using assms by (simp add: Path_cwd_def join_segment_def splitroot_rooted rel_parts_join_sep)

lemma join_sep_append:
  "xs \<noteq> [] \<Longrightarrow> ys \<noteq> [] \<Longrightarrow> join_sep (xs @ ys) = join_sep xs @ ''/'' @ join_sep ys"
  by (induction xs rule: join_sep.induct) (auto simp: neq_Nil_conv)

lemma join_sep_plain_empty:
  "\<forall>x \<in> set segs. plain_name x \<Longrightarrow> join_sep segs = [] \<longleftrightarrow> segs = []"
  by (induction segs rule: join_sep.induct) (auto simp: plain_name_def)

lemma as_posix_under_cwd:
  assumes cwd: "cwd fs = ''/'' @ join_sep segs" and segs: "\<forall>x \<in> set segs. plain_name x"
    and p: "\<forall>x \<in> set p. plain_name x" "p \<noteq> []"
  shows "as_posix fs p = (if cwd fs = ''/'' then [] else cwd fs) @ ''/'' @ join_sep p"
proof -
  from Path_cwd_plain [OF cwd segs] p(1)
  have "pure_path_of fs p = \<lparr>root = ''/'', parts = segs @ p\<rparr>"
    by (simp add: pure_path_of_def foldl_join_segment_plain)
  then have pr: "as_posix fs p = ''/'' @ join_sep (segs @ p)"
    by (simp add: as_posix_def absolute_def str_path_def)
  show ?thesis
  proof (cases "segs = []")
    case True
    with cwd pr show ?thesis by simp
  next
    case False
    with segs have "join_sep segs \<noteq> []" by (simp add: join_sep_plain_empty)
    with cwd have "cwd fs \<noteq> ''/''" by simp
    with cwd pr False p(2) show ?thesis by (simp add: join_sep_append)
  qed
qed

section \<open>Evaluation rules and the message of the locator\<close>

lemmas run_simps =
  parse_resources_def process_instance_def matches_provider_def apply_variables_def
  add_host_def add_group_def add_child_def set_variable_def empty_inventory_def
  group_resource_def host_resource_def

lemma ConflictError_inject [simp]: "ConflictError x = ConflictError y \<longleftrightarrow> x = y"
  by (simp add: ConflictError_def)

lemma not_located_names:
  "\<exists>msg. not_located env p = AnsiblePluginError msg \<and> sublist p msg
     \<and> (\<forall>n. env = Some n \<longrightarrow> sublist n msg)
     \<and> (\<forall>n. env = Some n \<and> n \<noteq> [] \<longrightarrow> sublist ('' for workspace '' @ n) msg)"
proof -
  let ?a = "''Could not locate the terraform state file''"
  let ?b = "''. Expected at: ''"
  let ?msg = "?a @ env_string env @ ?b @ p"
  have 1: "not_located env p = AnsiblePluginError ?msg"
    by (simp add: not_located_def)
  have "sublist p ((?a @ env_string env @ ?b) @ p @ [])"
    by (rule sublist_appendI)
  then have 2: "sublist p ?msg" by simp
  have 3: "sublist ('' for workspace '' @ n) ?msg" if "env = Some n" "n \<noteq> []" for n
  proof -
    from that have "env_string env = '' for workspace '' @ n"
      by (simp add: env_string_def)
    moreover have "sublist ('' for workspace '' @ n) (?a @ ('' for workspace '' @ n) @ (?b @ p))"
      by (rule sublist_appendI)
    ultimately show ?thesis by simp
  qed
  have 4: "sublist n ?msg" if "env = Some n" for n
  proof (cases "n = []")
    case True
    then show ?thesis by simp
  next
    case False
    have "sublist n ('' for workspace '' @ n)"
      using sublist_appendI [of n "'' for workspace ''" "[]"] by simp
    then show ?thesis
      using 3 [OF that False] by (rule sublist_order.order_trans)
  qed
  from 1 2 3 4 show ?thesis by blast
qed

section \<open>The state locator\<close>

text \<open>
  Claim C6. When the marker file \<^verbatim>\<open>.terraform/environment\<close> exists with a text \<open>w\<close> other
  than \<^verbatim>\<open>default\<close>, the state file chosen, and the one \<^verbatim>\<open>get_tf_state\<close> goes on to
  check and read, is \<^verbatim>\<open>terraform.tfstate.d/w/terraform.tfstate\<close> under the working
  directory. When the marker is absent, or its text is \<^verbatim>\<open>default\<close>, it is
  \<^verbatim>\<open>terraform.tfstate\<close> under the working directory. (A marker that exists and cannot be
  read as text has no text: the read raises, line 37.)
\<close>

theorem state_file_selection:
  "(nodes fs [''.terraform'', ''environment''] = Some (File w) \<and> w \<noteq> ''default'' \<longrightarrow>
      select_state_file fs = Inr ([''terraform.tfstate.d'', w, ''terraform.tfstate''], Some w)
      \<and> get_tf_state fs loads =
          load_state_file fs loads [''terraform.tfstate.d'', w, ''terraform.tfstate''] (Some w))
   \<and> (nodes fs [''.terraform'', ''environment''] = None \<longrightarrow>
      select_state_file fs = Inr ([''terraform.tfstate''], None)
      \<and> get_tf_state fs loads = load_state_file fs loads [''terraform.tfstate''] None)
   \<and> (nodes fs [''.terraform'', ''environment''] = Some (File ''default'') \<longrightarrow>
      select_state_file fs = Inr ([''terraform.tfstate''], Some ''default'')
      \<and> get_tf_state fs loads = load_state_file fs loads [''terraform.tfstate''] (Some ''default''))"
  by (simp add: get_tf_state_def select_state_file_def path_exists_def read_text_def
      env_path_def workspace_state_file_def default_state_file_def)

theorem state_file_selection_witness:
  "select_state_file staging_fs = Inr ([''terraform.tfstate.d'', ''staging'', ''terraform.tfstate''], Some ''staging'')
   \<and> select_state_file plain_fs = Inr ([''terraform.tfstate''], None)"
  using state_file_selection [of staging_fs "''staging''" no_loads]
    state_file_selection [of plain_fs "''staging''" no_loads]
  by (simp add: staging_fs_def plain_fs_def)

text \<open>
  Claim C7. When the chosen state file does not exist, \<^verbatim>\<open>get_tf_state\<close> fails with the
  plugin error of line 45.

  First part, for every file system: the message contains the path as
  \<^verbatim>\<open>state_file.absolute().as_posix()\<close> prints it; when a workspace name was read, the
  message contains it, and for a name that is not empty it contains \<^verbatim>\<open> for workspace \<close>
  followed by the name.

  The other parts give the whole message when the working directory is \<^verbatim>\<open>/\<close> followed
  by plain names with a slash between them, as \<^verbatim>\<open>os.getcwd()\<close> returns it. With a
  workspace \<open>n\<close> that is a plain name other than \<^verbatim>\<open>default\<close> the path printed is the
  working directory, \<^verbatim>\<open>/terraform.tfstate.d/\<close>, \<open>n\<close> and \<^verbatim>\<open>/terraform.tfstate\<close>; without
  a marker it is the working directory and \<^verbatim>\<open>/terraform.tfstate\<close>. The working
  directory \<^verbatim>\<open>/\<close> itself adds nothing before the slash. The last part is the scenario of
  the claim, the marker text \<^verbatim>\<open>staging\<close> with no
  \<^verbatim>\<open>terraform.tfstate.d/staging/terraform.tfstate\<close>.
\<close>

theorem missing_state_file_error:
  "(select_state_file fs = Inr (p, env) \<and> nodes fs p = None \<longrightarrow>
      (\<exists>msg. get_tf_state fs loads = Inl (AnsiblePluginError msg)
         \<and> sublist (as_posix fs p) msg
         \<and> (\<forall>n. env = Some n \<longrightarrow> sublist n msg)
         \<and> (\<forall>n. env = Some n \<and> n \<noteq> [] \<longrightarrow> sublist ('' for workspace '' @ n) msg)))
   \<and> (cwd fs = ''/'' @ join_sep segs \<and> (\<forall>x \<in> set segs. plain_name x)
       \<and> plain_name n \<and> n \<noteq> ''default''
       \<and> nodes fs [''.terraform'', ''environment''] = Some (File n)
       \<and> nodes fs [''terraform.tfstate.d'', n, ''terraform.tfstate''] = None \<longrightarrow>
      get_tf_state fs loads =
        Inl (AnsiblePluginError
          (''Could not locate the terraform state file for workspace '' @ n
             @ ''. Expected at: '' @ (if cwd fs = ''/'' then [] else cwd fs)
             @ ''/terraform.tfstate.d/'' @ n @ ''/terraform.tfstate'')))
   \<and> (cwd fs = ''/'' @ join_sep segs \<and> (\<forall>x \<in> set segs. plain_name x)
       \<and> nodes fs [''.terraform'', ''environment''] = None
       \<and> nodes fs [''terraform.tfstate''] = None \<longrightarrow>
      get_tf_state fs loads =
        Inl (AnsiblePluginError
          (''Could not locate the terraform state file. Expected at: ''
             @ (if cwd fs = ''/'' then [] else cwd fs) @ ''/terraform.tfstate'')))
   \<and> (cwd fs = ''/'' @ join_sep segs \<and> (\<forall>x \<in> set segs. plain_name x)
       \<and> nodes fs [''.terraform'', ''environment''] = Some (File ''staging'')
       \<and> nodes fs [''terraform.tfstate.d'', ''staging'', ''terraform.tfstate''] = None \<longrightarrow>
      get_tf_state fs loads =
        Inl (AnsiblePluginError
          (''Could not locate the terraform state file for workspace staging. Expected at: ''
             @ (if cwd fs = ''/'' then [] else cwd fs)
             @ ''/terraform.tfstate.d/staging/terraform.tfstate'')))"
proof -
  have general: "\<exists>msg. get_tf_state fs loads = Inl (AnsiblePluginError msg)
         \<and> sublist (as_posix fs p) msg
         \<and> (\<forall>n. env = Some n \<longrightarrow> sublist n msg)
         \<and> (\<forall>n. env = Some n \<and> n \<noteq> [] \<longrightarrow> sublist ('' for workspace '' @ n) msg)"
    if "select_state_file fs = Inr (p, env) \<and> nodes fs p = None"
  proof -
    from that have "get_tf_state fs loads = Inl (not_located env (as_posix fs p))"
      by (simp add: get_tf_state_def load_state_file_def path_exists_def)
    with not_located_names [of env "as_posix fs p"] show ?thesis by auto
  qed
  have workspace: "get_tf_state fs loads =
        Inl (AnsiblePluginError
          (''Could not locate the terraform state file for workspace '' @ m
             @ ''. Expected at: '' @ (if cwd fs = ''/'' then [] else cwd fs)
             @ ''/terraform.tfstate.d/'' @ m @ ''/terraform.tfstate''))"
    if "cwd fs = ''/'' @ join_sep segs \<and> (\<forall>x \<in> set segs. plain_name x)
       \<and> plain_name m \<and> m \<noteq> ''default''
       \<and> nodes fs [''.terraform'', ''environment''] = Some (File m)
       \<and> nodes fs [''terraform.tfstate.d'', m, ''terraform.tfstate''] = None" for m
  proof -
    from that have "as_posix fs [''terraform.tfstate.d'', m, ''terraform.tfstate'']
        = (if cwd fs = ''/'' then [] else cwd fs) @ ''/''
            @ join_sep [''terraform.tfstate.d'', m, ''terraform.tfstate'']"
      by (intro as_posix_under_cwd [of fs segs]) (simp_all add: plain_name_def)
    moreover from that have "m \<noteq> []" by (simp add: plain_name_def)
    ultimately show ?thesis using that
      by (simp add: get_tf_state_def select_state_file_def load_state_file_def path_exists_def
          read_text_def env_path_def workspace_state_file_def not_located_def env_string_def)
  qed
  have plain: "get_tf_state fs loads =
        Inl (AnsiblePluginError
          (''Could not locate the terraform state file. Expected at: ''
             @ (if cwd fs = ''/'' then [] else cwd fs) @ ''/terraform.tfstate''))"
    if "cwd fs = ''/'' @ join_sep segs \<and> (\<forall>x \<in> set segs. plain_name x)
       \<and> nodes fs [''.terraform'', ''environment''] = None
       \<and> nodes fs [''terraform.tfstate''] = None"
  proof -
    from that have "as_posix fs [''terraform.tfstate'']
        = (if cwd fs = ''/'' then [] else cwd fs) @ ''/'' @ join_sep [''terraform.tfstate'']"
      by (intro as_posix_under_cwd [of fs segs]) (simp_all add: plain_name_def)
    then show ?thesis using that
      by (simp add: get_tf_state_def select_state_file_def load_state_file_def path_exists_def
          env_path_def default_state_file_def not_located_def env_string_def)
  qed
  have staging: "get_tf_state fs loads =
        Inl (AnsiblePluginError
          (''Could not locate the terraform state file for workspace staging. Expected at: ''
             @ (if cwd fs = ''/'' then [] else cwd fs)
             @ ''/terraform.tfstate.d/staging/terraform.tfstate''))"
    if "cwd fs = ''/'' @ join_sep segs \<and> (\<forall>x \<in> set segs. plain_name x)
       \<and> nodes fs [''.terraform'', ''environment''] = Some (File ''staging'')
       \<and> nodes fs [''terraform.tfstate.d'', ''staging'', ''terraform.tfstate''] = None"
    using workspace [of "''staging''"] that by (simp add: plain_name_def)
  from general workspace [of n] plain staging show ?thesis by blast
qed

text \<open>
  The scenario in the working directories \<^verbatim>\<open>/srv/infra\<close> and \<^verbatim>\<open>/\<close>, and an empty
  marker file: its name is dropped from the printed path and from the message.
\<close>

theorem missing_state_file_error_witness:
  "get_tf_state staging_fs no_loads =
     Inl (AnsiblePluginError ''Could not locate the terraform state file for workspace staging. Expected at: /srv/infra/terraform.tfstate.d/staging/terraform.tfstate'')
   \<and> get_tf_state root_staging_fs no_loads =
     Inl (AnsiblePluginError ''Could not locate the terraform state file for workspace staging. Expected at: /terraform.tfstate.d/staging/terraform.tfstate'')
   \<and> get_tf_state empty_marker_fs no_loads =
     Inl (AnsiblePluginError ''Could not locate the terraform state file. Expected at: /srv/infra/terraform.tfstate.d/terraform.tfstate'')"
  using missing_state_file_error
    [where fs = staging_fs and p = "[''terraform.tfstate.d'', ''staging'', ''terraform.tfstate'']"
      and env = "Some ''staging''" and loads = no_loads and segs = "[''srv'', ''infra'']"
      and n = "''staging''"]
    missing_state_file_error
    [where fs = root_staging_fs and p = "[''terraform.tfstate.d'', ''staging'', ''terraform.tfstate'']"
      and env = "Some ''staging''" and loads = no_loads and segs = "[]" and n = "''staging''"]
    missing_state_file_error
    [where fs = empty_marker_fs and p = "[''terraform.tfstate.d'', [], ''terraform.tfstate'']"
      and env = "Some []" and loads = no_loads and segs = "[''srv'', ''infra'']" and n = "''staging''"]
  by (simp add: staging_fs_def root_staging_fs_def empty_marker_fs_def get_tf_state_def
      select_state_file_def load_state_file_def path_exists_def read_text_def env_path_def
      workspace_state_file_def not_located_def env_string_def as_posix_def absolute_def
      pure_path_of_def Path_cwd_def join_segment_def splitroot_def rel_parts_def str_path_def
      plain_name_def)

section \<open>The resolver\<close>

text \<open>
  Claim C4. The scenario document, a group \<open>web\<close> with children \<open>[app1]\<close> and a host
  \<open>app1\<close> with no groups and the variable \<open>port = 8080\<close>, resolved into the empty
  inventory: \<open>web\<close> is a group, \<open>app1\<close> is a host and a child of \<open>web\<close>, and \<open>port\<close> of
  \<open>app1\<close> is 8080. Nothing else is in the graph.
\<close>

theorem scenario_resolution:
  "parse_resources [group_resource ''web'' (Some [''app1'']) None,
      host_resource ''app1'' None (Some [(''port'', JInt 8080)])] empty_inventory =
   Done \<lparr>hosts = {''app1''}, group_names = {''web''}, child_edges = {(''web'', ''app1'')},
         var_bindings = (\<lambda>_. None)((''app1'', ''port'') \<mapsto> JInt 8080)\<rparr>"
  by (simp add: run_simps)

text \<open>
  Claim C5. When no resource of the document has the provider string
  \<^verbatim>\<open>provider["registry.terraform.io/ansible/ansible"]\<close> (a resource without a provider
  included), resolution changes nothing: run on the empty inventory it finishes with the
  empty inventory, and run on any inventory it finishes with that inventory.
\<close>

theorem other_providers_ignored:
  assumes "\<forall>r \<in> set rs. provider r \<noteq> Some ansible_provider"
  shows "parse_resources rs empty_inventory = Done empty_inventory
       \<and> (\<forall>iv. parse_resources rs iv = Done iv)"
  using skip_all [OF assms] by (simp add: parse_resources_def)

theorem other_providers_ignored_witness:
  "parse_resources other_document empty_inventory = Done empty_inventory"
  using other_providers_ignored [of other_document]
  by (simp add: other_document_def ansible_provider_def)

text \<open>
  Claim C3. A host resource of the recognised provider declares the groups \<open>gs\<close> (the
  claim's \<open>["g"]\<close> is the case \<open>gs = [g]\<close>), and \<open>g\<close> is one of them.

  First part: after a finished resolution \<open>g\<close> is a group, the host is a child of \<open>g\<close>
  and the host is registered. A finished run has passed the check of line 83 for this
  host, so the claim's proviso holds on it.

  Second part, with the proviso spelled out: the scan reaches the host's instance (the
  resources \<open>pre\<close> and the instances \<open>ipre\<close> before it raise nothing) and the host's name is
  neither a group name of the inventory at that moment nor one of the groups it lists.
  Then \<open>g\<close> is a group and the host a child of \<open>g\<close> in the inventory the resolution
  leaves behind, whether it finishes or a later resource raises.
\<close>

theorem host_groups_joined:
  "(parse_resources rs s0 = Done s \<and> r \<in> set rs \<and> matches_provider r
      \<and> rtype r = ''ansible_host'' \<and> i \<in> set (instances r)
      \<and> groups i = Some gs \<and> g \<in> set gs \<longrightarrow>
        g \<in> group_names s \<and> (g, name i) \<in> child_edges s \<and> name i \<in> hosts s)
   \<and> (scan_resources pre (s0, []) = Done st1 \<and> matches_provider r
      \<and> rtype r = ''ansible_host'' \<and> instances r = ipre @ i # ipost
      \<and> process_instances ''ansible_host'' ipre st1 = Done (s2, d2)
      \<and> groups i = Some gs \<and> g \<in> set gs
      \<and> name i \<notin> group_names s2 \<and> name i \<notin> set gs \<longrightarrow>
        g \<in> group_names (final_inventory (parse_resources (pre @ r # post) s0))
        \<and> (g, name i) \<in> child_edges (final_inventory (parse_resources (pre @ r # post) s0))
        \<and> name i \<in> hosts (final_inventory (parse_resources (pre @ r # post) s0)))"
proof (intro conjI impI)
  assume "parse_resources rs s0 = Done s \<and> r \<in> set rs \<and> matches_provider r
      \<and> rtype r = ''ansible_host'' \<and> i \<in> set (instances r)
      \<and> groups i = Some gs \<and> g \<in> set gs"
  then have "g \<in> group_names s \<and> (g, name i) \<in> child_edges s \<and> name i \<in> hosts s"
    using finished_run_host_joined [of rs s0 s r i gs g] by blast
  then show "g \<in> group_names s" "(g, name i) \<in> child_edges s" "name i \<in> hosts s"
    by simp_all
next
  let ?fin = "final_inventory (parse_resources (pre @ r # post) s0)"
  assume "scan_resources pre (s0, []) = Done st1 \<and> matches_provider r
      \<and> rtype r = ''ansible_host'' \<and> instances r = ipre @ i # ipost
      \<and> process_instances ''ansible_host'' ipre st1 = Done (s2, d2)
      \<and> groups i = Some gs \<and> g \<in> set gs
      \<and> name i \<notin> group_names s2 \<and> name i \<notin> set gs"
  then have "g \<in> group_names ?fin \<and> (g, name i) \<in> child_edges ?fin \<and> name i \<in> hosts ?fin"
    using host_joined_then_final [of pre s0 st1 r ipre i ipost s2 d2 gs g post] by blast
  then show "g \<in> group_names ?fin" "(g, name i) \<in> child_edges ?fin" "name i \<in> hosts ?fin"
    by simp_all
qed

text \<open>
  A host \<open>app1\<close> of the group \<open>web\<close>, alone, and followed by a host named \<open>web\<close> that
  raises the conflict: \<open>web\<close> is a group with the child \<open>app1\<close> in both inventories.
\<close>

theorem host_groups_joined_witness:
  "parse_resources [host_resource ''app1'' (Some [''web'']) None] empty_inventory
     = Done \<lparr>hosts = {''app1''}, group_names = {''web''}, child_edges = {(''web'', ''app1'')},
             var_bindings = (\<lambda>_. None)\<rparr>
   \<and> ''web'' \<in> group_names \<lparr>hosts = {''app1''}, group_names = {''web''}, child_edges = {(''web'', ''app1'')},
             var_bindings = (\<lambda>_. None)\<rparr>
   \<and> parse_resources ([] @ host_resource ''app1'' (Some [''web'']) None
          # [host_resource ''web'' (Some [''prod'']) None]) empty_inventory
     = Raised (ConflictError ''web'')
         \<lparr>hosts = {''web'', ''app1''}, group_names = {''prod'', ''web''},
          child_edges = {(''web'', ''app1'')}, var_bindings = (\<lambda>_. None)\<rparr>
   \<and> (''web'', ''app1'') \<in> child_edges (final_inventory
         (parse_resources ([] @ host_resource ''app1'' (Some [''web'']) None
            # [host_resource ''web'' (Some [''prod'']) None]) empty_inventory))"
  using host_groups_joined [where rs = "[host_resource ''app1'' (Some [''web'']) None]" and ?s0.0 = empty_inventory
      and s = "\<lparr>hosts = {''app1''}, group_names = {''web''}, child_edges = {(''web'', ''app1'')},
             var_bindings = (\<lambda>_. None)\<rparr>"
      and r = "host_resource ''app1'' (Some [''web'']) None"
      and i = "\<lparr>name = ''app1'', children = None, groups = Some [''web''], variables = None\<rparr>"
      and gs = "[''web'']" and g = "''web''"
      and pre = "[]" and ?st1.0 = "(empty_inventory, [])" and ipre = "[]" and ipost = "[]"
      and ?s2.0 = empty_inventory and ?d2.0 = "[]"
      and post = "[host_resource ''web'' (Some [''prod'']) None]"]
  by (simp add: run_simps)

text \<open>
  Claim C2. A group resource \<open>A\<close> lists \<open>b\<close> among its children and a group resource of
  the document is named \<open>b\<close>.

  First part: after a finished resolution \<open>b\<close> is a group and a child of \<open>A\<close>. The two
  resources are only required to occur in the resource list, so this holds with \<open>b\<close>
  declared after \<open>A\<close> as well as before it. (A run that raises stops in the scan and never
  reaches the delayed registration.)

  Second part: two group resources with one instance each and different names, declared
  one after the other, can be exchanged: the whole outcome of the resolution, inventory or
  error, is the same for both orders.
\<close>

theorem deferred_child_is_group:
  "(parse_resources rs s0 = Done s
      \<and> ra \<in> set rs \<and> matches_provider ra \<and> rtype ra = ''ansible_group''
      \<and> ia \<in> set (instances ra) \<and> children ia = Some cs \<and> b \<in> set cs
      \<and> rb \<in> set rs \<and> matches_provider rb \<and> rtype rb = ''ansible_group''
      \<and> ib \<in> set (instances rb) \<and> name ib = b \<longrightarrow>
        b \<in> group_names s \<and> (name ia, b) \<in> child_edges s)
   \<and> (matches_provider ra \<and> rtype ra = ''ansible_group'' \<and> instances ra = [ia]
      \<and> matches_provider rb \<and> rtype rb = ''ansible_group'' \<and> instances rb = [ib]
      \<and> name ia \<noteq> name ib \<longrightarrow>
        parse_resources (pre @ ra # rb # post) s0 = parse_resources (pre @ rb # ra # post) s0)"
proof (intro conjI impI)
  assume "parse_resources rs s0 = Done s
      \<and> ra \<in> set rs \<and> matches_provider ra \<and> rtype ra = ''ansible_group''
      \<and> ia \<in> set (instances ra) \<and> children ia = Some cs \<and> b \<in> set cs
      \<and> rb \<in> set rs \<and> matches_provider rb \<and> rtype rb = ''ansible_group''
      \<and> ib \<in> set (instances rb) \<and> name ib = b"
  then have "b \<in> group_names s \<and> (name ia, b) \<in> child_edges s"
    using finished_run_child_group [of rs s0 s ra ia cs b rb ib] by blast
  then show "b \<in> group_names s" "(name ia, b) \<in> child_edges s"
    by simp_all
next
  assume "matches_provider ra \<and> rtype ra = ''ansible_group'' \<and> instances ra = [ia]
      \<and> matches_provider rb \<and> rtype rb = ''ansible_group'' \<and> instances rb = [ib]
      \<and> name ia \<noteq> name ib"
  then show "parse_resources (pre @ ra # rb # post) s0 = parse_resources (pre @ rb # ra # post) s0"
    using group_resources_commute [of ra ia rb ib pre post s0] by blast
qed

text \<open>Both declaration orders of the two groups, run on the empty inventory.\<close>

theorem deferred_child_is_group_witness:
  "parse_resources [group_resource ''a'' (Some [''b'']) None, group_resource ''b'' None None] empty_inventory
     = Done \<lparr>hosts = {}, group_names = {''a'', ''b''}, child_edges = {(''a'', ''b'')},
             var_bindings = (\<lambda>_. None)\<rparr>
   \<and> parse_resources [group_resource ''b'' None None, group_resource ''a'' (Some [''b'']) None] empty_inventory
     = Done \<lparr>hosts = {}, group_names = {''a'', ''b''}, child_edges = {(''a'', ''b'')},
             var_bindings = (\<lambda>_. None)\<rparr>
   \<and> ''b'' \<in> group_names \<lparr>hosts = {}, group_names = {''a'', ''b''}, child_edges = {(''a'', ''b'')},
             var_bindings = (\<lambda>_. None)\<rparr>"
  using deferred_child_is_group [where rs = "[group_resource ''a'' (Some [''b'']) None, group_resource ''b'' None None]"
      and ?s0.0 = empty_inventory
      and s = "\<lparr>hosts = {}, group_names = {''a'', ''b''}, child_edges = {(''a'', ''b'')},
             var_bindings = (\<lambda>_. None)\<rparr>"
      and ra = "group_resource ''a'' (Some [''b'']) None"
      and ia = "\<lparr>name = ''a'', children = Some [''b''], groups = None, variables = None\<rparr>"
      and cs = "[''b'']" and b = "''b''"
      and rb = "group_resource ''b'' None None"
      and ib = "\<lparr>name = ''b'', children = None, groups = None, variables = None\<rparr>"
      and pre = "[]" and post = "[]"]
  by (auto simp: run_simps)

text \<open>
  Claim C10. For a host resource whose \<^verbatim>\<open>groups\<close> is null, the loop of lines 80-86 and
  its conflict check are not run: whatever the inventory holds, also the host's own name
  as a group name, the step adds the host, sets its variables and goes on without error.
  So a document whose host resources all have \<^verbatim>\<open>groups\<close> null raises no error at all.
\<close>

theorem host_without_groups_skips_check:
  "(groups i = None \<longrightarrow>
      process_instance ''ansible_host'' i (s, d)
        = Done (apply_variables i (add_host (name i) s), d))
   \<and> ((\<forall>r \<in> set rs. matches_provider r \<and> rtype r = ''ansible_host'' \<longrightarrow>
          (\<forall>j \<in> set (instances r). groups j = None)) \<longrightarrow>
        raised (parse_resources rs s0) = None)"
  using host_step_without_groups [of i s d] no_groups_no_error [of rs s0] by blast

text \<open>
  A host \<open>db\<close> without groups, added to an inventory where \<open>db\<close> is a group, and the
  document of a group \<open>db\<close> followed by that host.
\<close>

theorem host_without_groups_skips_check_witness:
  "process_instance ''ansible_host''
      \<lparr>name = ''db'', children = None, groups = None, variables = None\<rparr>
      (add_group ''db'' empty_inventory, [])
     = Done (\<lparr>hosts = {''db''}, group_names = {''db''}, child_edges = {},
              var_bindings = (\<lambda>_. None)\<rparr>, [])
   \<and> parse_resources [group_resource ''db'' None None, host_resource ''db'' None None]
        empty_inventory
     = Done \<lparr>hosts = {''db''}, group_names = {''db''}, child_edges = {},
             var_bindings = (\<lambda>_. None)\<rparr>"
  using host_without_groups_skips_check
    [where i = "\<lparr>name = ''db'', children = None, groups = None, variables = None\<rparr>"
      and s = "add_group ''db'' empty_inventory" and d = "[]"
      and rs = "[group_resource ''db'' None None, host_resource ''db'' None None]"
      and ?s0.0 = empty_inventory]
  by (simp add: run_simps)

text \<open>
  Claim C1 says that a host \<open>X\<close> processed before a group that lists \<open>X\<close> among its children
  makes resolution fail with a conflict error naming \<open>X\<close>. The code has no check on that
  path: the child lists are handled after the scan (lines 96-101), where a name that is a
  host is attached to the group as it is. The document below, a host \<open>x\<close> followed by a
  group \<open>g\<close> with children \<open>[x]\<close>, resolves without error and \<open>x\<close> is a child of \<open>g\<close>.
\<close>

theorem host_then_group_child_resolves:
  "parse_resources [host_resource ''x'' None None, group_resource ''g'' (Some [''x'']) None]
      empty_inventory
     = Done \<lparr>hosts = {''x''}, group_names = {''g''}, child_edges = {(''g'', ''x'')},
             var_bindings = (\<lambda>_. None)\<rparr>
   \<and> raised (parse_resources
         [host_resource ''x'' None None, group_resource ''g'' (Some [''x'']) None]
         empty_inventory) \<noteq> Some (ConflictError ''x'')"
  by (simp add: run_simps)

text \<open>
  Claim C1, as amended. The conflict check of lines 83-84 stands in the host branch. A
  host resource named \<open>X\<close> whose groups list is not empty, reached while \<open>X\<close> is a group name
  already (or \<open>X\<close> is the first group it lists), makes resolution fail with the conflict
  error naming \<open>X\<close>, the sink holding the host and that first group. A group resource that
  lists \<open>X\<close> among its children raises nothing: on a finished run \<open>X\<close> is a child of that
  group.
\<close>

theorem conflict_when_host_is_group:
  "(scan_resources pre (s0, []) = Done st1 \<and> matches_provider r \<and> rtype r = ''ansible_host''
      \<and> instances r = ipre @ i # ipost
      \<and> process_instances ''ansible_host'' ipre st1 = Done (s2, d2)
      \<and> groups i = Some (g # gs) \<and> (name i \<in> group_names s2 \<or> name i = g) \<longrightarrow>
        parse_resources (pre @ r # post) s0
          = Raised (ConflictError (name i)) (add_group g (add_host (name i) s2)))
   \<and> (parse_resources rs s0 = Done s' \<and> rg \<in> set rs \<and> matches_provider rg \<and> rtype rg = ''ansible_group''
        \<and> ig \<in> set (instances rg) \<and> children ig = Some cs \<and> x \<in> set cs \<longrightarrow>
          (name ig, x) \<in> child_edges s')"
proof (intro conjI impI)
  assume a: "scan_resources pre (s0, []) = Done st1 \<and> matches_provider r \<and> rtype r = ''ansible_host''
      \<and> instances r = ipre @ i # ipost
      \<and> process_instances ''ansible_host'' ipre st1 = Done (s2, d2)
      \<and> groups i = Some (g # gs) \<and> (name i \<in> group_names s2 \<or> name i = g)"
  then have "join_groups (name i) (g # gs) (add_host (name i) s2)
      = Raised (ConflictError (name i)) (add_group g (add_host (name i) s2))"
    by (intro join_groups_conflict) auto
  with a have "process_instance ''ansible_host'' i (s2, d2)
      = Raised (ConflictError (name i)) (add_group g (add_host (name i) s2))"
    by (simp add: process_instance_def Let_def del: join_groups.simps)
  with a have "process_instances (rtype r) (instances r) st1
      = Raised (ConflictError (name i)) (add_group g (add_host (name i) s2))"
    by (simp add: process_instances_append)
  with a have "scan_resources (pre @ r # post) (s0, [])
      = Raised (ConflictError (name i)) (add_group g (add_host (name i) s2))"
    by (simp add: scan_resources_append)
  then show "parse_resources (pre @ r # post) s0
      = Raised (ConflictError (name i)) (add_group g (add_host (name i) s2))"
    by (simp add: parse_resources_def)
next
  assume a: "parse_resources rs s0 = Done s' \<and> rg \<in> set rs \<and> matches_provider rg \<and> rtype rg = ''ansible_group''
        \<and> ig \<in> set (instances rg) \<and> children ig = Some cs \<and> x \<in> set cs"
  then obtain s1 d
    where scan: "scan_resources rs (s0, []) = Done (s1, d)" and s: "s' = register_delayed d s1"
    using parse_Done by blast
  from a scan_resources_reaches [OF scan, of rg ig] obtain sa da sb db
    where "process_instance ''ansible_group'' ig (sa, da) = Done (sb, db)"
      and "delayed_pairs db \<subseteq> delayed_pairs d"
    by auto
  with group_step_delayed [of ig sa da sb db] a
  have "(name ig, x) \<in> delayed_pairs d" by auto
  then show "(name ig, x) \<in> child_edges s'"
    unfolding s by (simp add: register_delayed_fields)
qed

text \<open>
  A group \<open>x\<close> followed by a host \<open>x\<close> of the group \<open>g\<close> raises the conflict for \<open>x\<close>;
  a host \<open>x\<close> followed by a group \<open>g\<close> with the child \<open>x\<close> finishes with \<open>x\<close> a child
  of \<open>g\<close>.
\<close>

theorem conflict_when_host_is_group_witness:
  "parse_resources ([group_resource ''x'' None None] @ host_resource ''x'' (Some [''g'']) None # [])
      empty_inventory
     = Raised (ConflictError ''x'')
         \<lparr>hosts = {''x''}, group_names = {''g'', ''x''}, child_edges = {},
          var_bindings = (\<lambda>_. None)\<rparr>
   \<and> (''g'', ''x'') \<in> child_edges (final_inventory (parse_resources
         [host_resource ''x'' None None, group_resource ''g'' (Some [''x'']) None]
         empty_inventory))"
  using conflict_when_host_is_group
    [where pre = "[group_resource ''x'' None None]" and ?s0.0 = empty_inventory
      and ?st1.0 = "(add_group ''x'' empty_inventory, [])"
      and r = "host_resource ''x'' (Some [''g'']) None" and ipre = "[]"
      and i = "\<lparr>name = ''x'', children = None, groups = Some [''g''], variables = None\<rparr>"
      and ipost = "[]" and ?s2.0 = "add_group ''x'' empty_inventory" and ?d2.0 = "[]"
      and g = "''g''" and gs = "[]" and post = "[]"]
    conflict_when_host_is_group
    [where ?s0.0 = empty_inventory
      and rs = "[host_resource ''x'' None None, group_resource ''g'' (Some [''x'']) None]"
      and s' = "\<lparr>hosts = {''x''}, group_names = {''g''}, child_edges = {(''g'', ''x'')},
          var_bindings = (\<lambda>_. None)\<rparr>"
      and rg = "group_resource ''g'' (Some [''x'']) None"
      and ig = "\<lparr>name = ''g'', children = Some [''x''], groups = None, variables = None\<rparr>"
      and cs = "[''x'']" and x = "''x''"]
  by (simp add: run_simps)

text \<open>
  Claim C9. When resolution raises the conflict error for \<open>x\<close>, the inventory left behind
  keeps what was done before. Whatever part \<open>pre\<close> of the resource list had been scanned
  without error, the inventory \<open>s1\<close> reached after it (itself above the initial one) is
  contained in the inventory at the error, host by host, group by group, edge by edge and
  binding by binding. The host \<open>x\<close> and the group named \<open>x\<close> are in it. And the inventory
  at the error is exactly the one of the failing check: the inventory after the resources
  and instances before the host \<open>x\<close>, with the host added (line 78), joined to the groups
  \<open>gpre\<close> it lists before the failing one (lines 81 and 86), and with the group \<open>g\<close> of
  the failing check added (line 81).
\<close>

theorem conflict_keeps_mutations:
  assumes "parse_resources rs s0 = Raised (ConflictError x) s"
  shows "(\<forall>pre post s1 d1. rs = pre @ post \<and> scan_resources pre (s0, []) = Done (s1, d1) \<longrightarrow>
            inventory_le s0 s1 \<and> inventory_le s1 s)
       \<and> x \<in> hosts s \<and> x \<in> group_names s
       \<and> (\<exists>pre r post ipre i ipost gpre g gpost st1 s2 d2 sp.
           rs = pre @ r # post \<and> matches_provider r \<and> rtype r = ''ansible_host''
           \<and> instances r = ipre @ i # ipost \<and> name i = x \<and> groups i = Some (gpre @ g # gpost)
           \<and> scan_resources pre (s0, []) = Done st1
           \<and> process_instances ''ansible_host'' ipre st1 = Done (s2, d2)
           \<and> join_groups x gpre (add_host x s2) = Done sp
           \<and> s = add_group g sp)"
proof (intro conjI allI impI)
  fix pre post s1 d1
  assume a: "rs = pre @ post \<and> scan_resources pre (s0, []) = Done (s1, d1)"
  from assms have "scan_resources rs (s0, []) = Raised (ConflictError x) s"
    by (auto simp: parse_resources_def split: outcome.splits)
  with a have post: "scan_resources post (s1, d1) = Raised (ConflictError x) s"
    by (simp add: scan_resources_append)
  from scan_resources_Raised [OF post] show "inventory_le s1 s" by simp
  from a scan_resources_Done_le [of pre s0 "[]" s1 d1] show "inventory_le s0 s1" by simp
next
  from assms have "scan_resources rs (s0, []) = Raised (ConflictError x) s"
    by (auto simp: parse_resources_def split: outcome.splits)
  from scan_resources_Raised [OF this] show "x \<in> hosts s" "x \<in> group_names s"
    by auto
next
  from raise_point [OF assms] obtain pre r post ipre i ipost gpre g gpost st1 s2 d2 sp
    where *: "rs = pre @ r # post" "matches_provider r" "rtype r = ''ansible_host''"
      "instances r = ipre @ i # ipost" "groups i = Some (gpre @ g # gpost)"
      "scan_resources pre (s0, []) = Done st1"
      "process_instances ''ansible_host'' ipre st1 = Done (s2, d2)"
      "join_groups (name i) gpre (add_host (name i) s2) = Done sp"
      "ConflictError x = ConflictError (name i)" "s = add_group g sp"
    by blast
  then have "name i = x" by simp
  with * have "rs = pre @ r # post \<and> matches_provider r \<and> rtype r = ''ansible_host''
           \<and> instances r = ipre @ i # ipost \<and> name i = x \<and> groups i = Some (gpre @ g # gpost)
           \<and> scan_resources pre (s0, []) = Done st1
           \<and> process_instances ''ansible_host'' ipre st1 = Done (s2, d2)
           \<and> join_groups x gpre (add_host x s2) = Done sp
           \<and> s = add_group g sp"
    by simp
  then show "\<exists>pre r post ipre i ipost gpre g gpost st1 s2 d2 sp.
           rs = pre @ r # post \<and> matches_provider r \<and> rtype r = ''ansible_host''
           \<and> instances r = ipre @ i # ipost \<and> name i = x \<and> groups i = Some (gpre @ g # gpost)
           \<and> scan_resources pre (s0, []) = Done st1
           \<and> process_instances ''ansible_host'' ipre st1 = Done (s2, d2)
           \<and> join_groups x gpre (add_host x s2) = Done sp
           \<and> s = add_group g sp"
    by blast
qed

text \<open>
  The scenario document followed by a host named as the group \<open>web\<close>: the error leaves
  the host \<open>app1\<close>, its variable, the group \<open>web\<close>, the new host \<open>web\<close> and the group
  \<open>prod\<close> in the inventory.
\<close>

theorem conflict_keeps_mutations_witness:
  "parse_resources [group_resource ''web'' (Some [''app1'']) None,
      host_resource ''app1'' None (Some [(''port'', JInt 8080)]),
      host_resource ''web'' (Some [''prod'']) None] empty_inventory =
     Raised (ConflictError ''web'')
       \<lparr>hosts = {''web'', ''app1''}, group_names = {''prod'', ''web''}, child_edges = {},
        var_bindings = (\<lambda>_. None)((''app1'', ''port'') \<mapsto> JInt 8080)\<rparr>
   \<and> ''web'' \<in> hosts \<lparr>hosts = {''web'', ''app1''}, group_names = {''prod'', ''web''}, child_edges = {},
        var_bindings = (\<lambda>_. None)((''app1'', ''port'') \<mapsto> JInt 8080)\<rparr>"
  using conflict_keeps_mutations [of "[group_resource ''web'' (Some [''app1'']) None,
      host_resource ''app1'' None (Some [(''port'', JInt 8080)]),
      host_resource ''web'' (Some [''prod'']) None]" empty_inventory "''web''"
      "\<lparr>hosts = {''web'', ''app1''}, group_names = {''prod'', ''web''}, child_edges = {},
        var_bindings = (\<lambda>_. None)((''app1'', ''port'') \<mapsto> JInt 8080)\<rparr>"]
  by (simp add: run_simps)

text \<open>
  Claim C8. A run reads the document and the sink and nothing else: \<^verbatim>\<open>delayed\<close> is
  created empty in each run (line 58). What could make two runs differ is the order in
  which the dictionaries are enumerated, at lines 92 and 96.

  First part: two runs on fresh inventories give the same outcome, the same error or the
  same hosts, groups, child edges and variable bindings, for the same document, also when
  the \<^verbatim>\<open>variables\<close> objects list their keys in another order in the second run.
  Second part: the delayed registration gives the same inventory for the same entries of
  \<^verbatim>\<open>delayed\<close> in any order. Third part: every document is the same as itself, so the
  first part speaks of every document.
\<close>

theorem resolution_deterministic:
  "(same_document rs qs \<and> fresh s1 \<and> fresh s2 \<longrightarrow> parse_resources rs s1 = parse_resources qs s2)
   \<and> (set d1 = set d2 \<longrightarrow> register_delayed d1 s = register_delayed d2 s)
   \<and> same_document rs rs"
proof (intro conjI impI)
  assume a: "same_document rs qs \<and> fresh s1 \<and> fresh s2"
  then have "s1 = s2" by (simp add: fresh_def)
  moreover from a have "scan_resources rs (s2, []) = scan_resources qs (s2, [])"
    by (simp add: same_document_def scan_resources_same_document)
  ultimately show "parse_resources rs s1 = parse_resources qs s2"
    by (simp add: parse_resources_def)
next
  assume "set d1 = set d2"
  then show "register_delayed d1 s = register_delayed d2 s"
    by (intro register_delayed_cong delayed_pairs_set)
next
  show "same_document rs rs"
    by (simp add: same_document_def same_resource_def same_attributes_def same_variables_def
        list_all2_same)
qed

text \<open>
  A document whose group \<open>web\<close> lists its two variables in both orders, and the delayed
  entries of its two groups in both orders.
\<close>

theorem resolution_deterministic_witness:
  "parse_resources
      [group_resource ''web'' (Some [''app1'', ''app2''])
         (Some [(''port'', JInt 8080), (''zone'', JString ''a'')]),
       group_resource ''db'' (Some [''db1'']) None] empty_inventory
     = parse_resources
      [group_resource ''web'' (Some [''app1'', ''app2''])
         (Some [(''zone'', JString ''a''), (''port'', JInt 8080)]),
       group_resource ''db'' (Some [''db1'']) None]
      \<lparr>hosts = {}, group_names = {}, child_edges = {}, var_bindings = Map.empty\<rparr>
   \<and> register_delayed [(''web'', [''app1'', ''app2'']), (''db'', [''db1''])] empty_inventory
     = register_delayed [(''db'', [''db1'']), (''web'', [''app1'', ''app2''])] empty_inventory"
  using resolution_deterministic
    [where rs = "[group_resource ''web'' (Some [''app1'', ''app2''])
         (Some [(''port'', JInt 8080), (''zone'', JString ''a'')]),
       group_resource ''db'' (Some [''db1'']) None]"
      and qs = "[group_resource ''web'' (Some [''app1'', ''app2''])
         (Some [(''zone'', JString ''a''), (''port'', JInt 8080)]),
       group_resource ''db'' (Some [''db1'']) None]"
      and ?s1.0 = empty_inventory
      and ?s2.0 = "\<lparr>hosts = {}, group_names = {}, child_edges = {}, var_bindings = Map.empty\<rparr>"
      and ?d1.0 = "[(''web'', [''app1'', ''app2'']), (''db'', [''db1''])]"
      and ?d2.0 = "[(''db'', [''db1'']), (''web'', [''app1'', ''app2''])]"
      and s = empty_inventory]
  by (auto simp: same_document_def same_resource_def same_attributes_def same_variables_def
      fresh_def empty_inventory_def group_resource_def)

end
